theory Spec2Isabelle
  imports Main "HOL-Library.Word" "HOL-Library.Sublist"
begin

section \<open>Values, statements and the storage backend\<close>

text \<open>
  A JavaScript string is a sequence of UTF-16 code units.  The scripts bind two kinds of
  values to the positional parameters of a statement: strings and (integral) numbers.
\<close>

type_synonym jsstring = "16 word list"

datatype param = PStr jsstring | PNum int

datatype error = BackendError nat | TypeError | LoadError

datatype table_name = Translation | Book | Chapter | Verse | Cross_references

datatype index_name =
    Idx_cross_references_from_book
  | Idx_cross_references_to_book
  | Idx_cross_references_from
  | Idx_cross_references_to

text \<open>
  The statements the direct-execution scripts pass to \<open>client.query\<close>.  A multi-row
  insert carries its row-value groups and its parameter list; a row-value group
  \<open>($i, $j, ...)\<close> is the list \<open>[i, j, ...]\<close> of its placeholder numbers.  The
  single-row inserts have the fixed groups written in the source
  (\<open>($1, $2, $3, $4)\<close> and so on) and carry their parameter list only.
\<close>

datatype stmt =
    BEGIN
  | COMMIT
  | ROLLBACK
  | CREATE_TABLE_IF_NOT_EXISTS table_name
  | CREATE_INDEX_IF_NOT_EXISTS index_name
  | INSERT_translation "param list"
  | INSERT_book "param list"
  | INSERT_chapter "param list"
  | INSERT_verse "nat list list" "param list"
  | INSERT_cross_references "nat list list" "param list"

datatype call = Connect | Query stmt | End

record translation_row =
  tr_id :: int
  tr_code :: jsstring
  tr_name :: jsstring
  tr_language :: jsstring
  tr_license :: jsstring

record book_row =
  bk_id :: int
  bk_translation_id :: int
  bk_name :: jsstring
  bk_book_number :: int

record chapter_row =
  ch_id :: int
  ch_book_id :: int
  ch_chapter_number :: int

record verse_row =
  vs_id :: int
  vs_chapter_id :: int
  vs_verse_number :: int
  vs_text :: jsstring

record cross_reference_row =
  cr_id :: int
  cr_from_book :: jsstring
  cr_from_chapter :: int
  cr_from_verse :: int
  cr_to_book :: jsstring
  cr_to_chapter :: int
  cr_to_verse_start :: int
  cr_to_verse_end :: int
  cr_votes :: int

text \<open>
  The tables of the schema the scripts create, each with the rows in insertion order.  A
  table that was never created is an empty one.  The \<open>SERIAL\<close> counters are kept apart
  from the tables: a rollback restores rows, not counters.
\<close>

record tables =
  translation_tbl :: "translation_row list"
  book_tbl :: "book_row list"
  chapter_tbl :: "chapter_row list"
  verse_tbl :: "verse_row list"
  cross_references_tbl :: "cross_reference_row list"

record seqs =
  translation_id_seq :: int
  book_id_seq :: int
  chapter_id_seq :: int
  verse_id_seq :: int
  cross_references_id_seq :: int

definition empty_tables :: tables where
  "empty_tables =
     \<lparr>translation_tbl = [], book_tbl = [], chapter_tbl = [], verse_tbl = [],
      cross_references_tbl = []\<rparr>"

definition fresh_seqs :: seqs where
  "fresh_seqs =
     \<lparr>translation_id_seq = 1, book_id_seq = 1, chapter_id_seq = 1, verse_id_seq = 1,
      cross_references_id_seq = 1\<rparr>"

subsection \<open>What a statement does to the tables\<close>

text \<open>
  A parameterised statement is accepted when it has at least one row-value group and
  its placeholders are exactly \<open>$1 .. $n\<close> for the \<open>n\<close> parameters supplied.
\<close>

definition placeholders_ok :: "nat list list \<Rightarrow> param list \<Rightarrow> bool" where
  "placeholders_ok vals ps \<longleftrightarrow>
     vals \<noteq> [] \<and>
     list_all (\<lambda>i. 1 \<le> i \<and> i \<le> length ps) (concat vals) \<and>
     list_all (\<lambda>i. i \<in> set (concat vals)) [1..<Suc (length ps)]"

definition bind_group :: "param list \<Rightarrow> nat list \<Rightarrow> param list" where
  "bind_group ps g = map (\<lambda>i. ps ! (i - 1)) g"

fun verse_of_params :: "int \<Rightarrow> param list \<Rightarrow> verse_row option" where
  "verse_of_params i [PNum c, PNum n, PStr t] =
     Some \<lparr>vs_id = i, vs_chapter_id = c, vs_verse_number = n, vs_text = t\<rparr>"
| "verse_of_params i ps = None"

fun cross_reference_of_params :: "int \<Rightarrow> param list \<Rightarrow> cross_reference_row option" where
  "cross_reference_of_params i
      [PStr fb, PNum fc, PNum fv, PStr tb, PNum tc, PNum ts, PNum te, PNum v] =
     Some \<lparr>cr_id = i, cr_from_book = fb, cr_from_chapter = fc, cr_from_verse = fv,
           cr_to_book = tb, cr_to_chapter = tc, cr_to_verse_start = ts,
           cr_to_verse_end = te, cr_votes = v\<rparr>"
| "cross_reference_of_params i ps = None"

text \<open>
  The rows of a multi-row insert, numbered from the counter; \<open>None\<close> when a group does
  not fit the columns.
\<close>

fun rows_from :: "(int \<Rightarrow> param list \<Rightarrow> 'r option) \<Rightarrow> int \<Rightarrow> param list list \<Rightarrow> 'r list option" where
  "rows_from mk i [] = Some []"
| "rows_from mk i (g # gs) =
     (case mk i g of
        None \<Rightarrow> None
      | Some r \<Rightarrow> (case rows_from mk (i + 1) gs of None \<Rightarrow> None | Some rs \<Rightarrow> Some (r # rs)))"

text \<open>
  \<open>INSERT INTO translation ... ON CONFLICT (code) DO UPDATE SET name = $2, language = $3,
  license = $4 RETURNING id\<close>: the row with the code, when there is one, keeps its
  identifier and takes the new values; otherwise a new row is appended.
\<close>

fun upsert_translation ::
  "jsstring \<Rightarrow> jsstring \<Rightarrow> jsstring \<Rightarrow> jsstring \<Rightarrow> translation_row list \<Rightarrow>
   (translation_row list \<times> int) option" where
  "upsert_translation c n l lic [] = None"
| "upsert_translation c n l lic (r # rs) =
     (if tr_code r = c
      then Some (r\<lparr>tr_name := n, tr_language := l, tr_license := lic\<rparr> # rs, tr_id r)
      else (case upsert_translation c n l lic rs of
              None \<Rightarrow> None
            | Some (rs', i) \<Rightarrow> Some (r # rs', i)))"

text \<open>
  The effect of a data or schema statement on the tables and counters, with the
  identifiers it returns; \<open>None\<close> when the backend rejects the statement.  The
  transaction statements are the client's business, below.
\<close>

fun exec :: "stmt \<Rightarrow> tables \<Rightarrow> seqs \<Rightarrow> (tables \<times> seqs \<times> int list) option" where
  "exec (CREATE_TABLE_IF_NOT_EXISTS t) T S = Some (T, S, [])"
| "exec (CREATE_INDEX_IF_NOT_EXISTS x) T S = Some (T, S, [])"
| "exec (INSERT_translation [PStr c, PStr n, PStr l, PStr lic]) T S =
     (case upsert_translation c n l lic (translation_tbl T) of
        Some (rs, i) \<Rightarrow> Some (T\<lparr>translation_tbl := rs\<rparr>, S, [i])
      | None \<Rightarrow>
          Some (T\<lparr>translation_tbl := translation_tbl T @
                    [\<lparr>tr_id = translation_id_seq S, tr_code = c, tr_name = n,
                      tr_language = l, tr_license = lic\<rparr>]\<rparr>,
                S\<lparr>translation_id_seq := translation_id_seq S + 1\<rparr>,
                [translation_id_seq S]))"
| "exec (INSERT_book [PNum t, PStr n, PNum k]) T S =
     Some (T\<lparr>book_tbl := book_tbl T @
               [\<lparr>bk_id = book_id_seq S, bk_translation_id = t, bk_name = n,
                 bk_book_number = k\<rparr>]\<rparr>,
           S\<lparr>book_id_seq := book_id_seq S + 1\<rparr>,
           [book_id_seq S])"
| "exec (INSERT_chapter [PNum b, PNum k]) T S =
     Some (T\<lparr>chapter_tbl := chapter_tbl T @
               [\<lparr>ch_id = chapter_id_seq S, ch_book_id = b, ch_chapter_number = k\<rparr>]\<rparr>,
           S\<lparr>chapter_id_seq := chapter_id_seq S + 1\<rparr>,
           [chapter_id_seq S])"
| "exec (INSERT_verse vals ps) T S =
     (if placeholders_ok vals ps
      then (case rows_from verse_of_params (verse_id_seq S) (map (bind_group ps) vals) of
              None \<Rightarrow> None
            | Some rs \<Rightarrow>
                Some (T\<lparr>verse_tbl := verse_tbl T @ rs\<rparr>,
                      S\<lparr>verse_id_seq := verse_id_seq S + int (length rs)\<rparr>, []))
      else None)"
| "exec (INSERT_cross_references vals ps) T S =
     (if placeholders_ok vals ps
      then (case rows_from cross_reference_of_params (cross_references_id_seq S)
                   (map (bind_group ps) vals) of
              None \<Rightarrow> None
            | Some rs \<Rightarrow>
                Some (T\<lparr>cross_references_tbl := cross_references_tbl T @ rs\<rparr>,
                      S\<lparr>cross_references_id_seq :=
                          cross_references_id_seq S + int (length rs)\<rparr>, []))
      else None)"
| "exec s T S = None"

subsection \<open>The client\<close>

text \<open>
  A \<open>pg.Client\<close> together with the backend it talks to: the committed tables (what
  every other session sees), the tables of the open transaction if there is one, the
  counters, the calls made so far in order, and the set of calls (by position) at which
  the backend or the connection fails.
\<close>

record client =
  connected :: bool
  committed :: tables
  working :: "tables option"
  seqs :: seqs
  calls :: "call list"
  faults :: "nat set"

definition new_Client :: "tables \<Rightarrow> seqs \<Rightarrow> nat set \<Rightarrow> client" where
  "new_Client T S F =
     \<lparr>connected = False, committed = T, working = None, seqs = S, calls = [], faults = F\<rparr>"

definition connect :: "client \<Rightarrow> (error + unit) \<times> client" where
  "connect c =
     (let n = length (calls c); c1 = c\<lparr>calls := calls c @ [Connect]\<rparr>
      in if n \<in> faults c then (Inl (BackendError n), c1)
         else (Inr (), c1\<lparr>connected := True\<rparr>))"

text \<open>
  \<open>client.end()\<close>: the session is over, and a transaction still open is discarded by
  the backend, whether or not the call itself reports an error.
\<close>

definition end_client :: "client \<Rightarrow> (error + unit) \<times> client" where
  "end_client c =
     (let n = length (calls c);
          c1 = c\<lparr>calls := calls c @ [End], connected := False, working := None\<rparr>
      in if n \<in> faults c then (Inl (BackendError n), c1) else (Inr (), c1))"

definition query :: "stmt \<Rightarrow> client \<Rightarrow> (error + int list) \<times> client" where
  "query s c =
     (let n = length (calls c); c1 = c\<lparr>calls := calls c @ [Query s]\<rparr>
      in if n \<in> faults c \<or> \<not> connected c then (Inl (BackendError n), c1)
         else (case s of
                 BEGIN \<Rightarrow>
                   (Inr [], (case working c of
                               None \<Rightarrow> c1\<lparr>working := Some (committed c)\<rparr>
                             | Some w \<Rightarrow> c1))
               | COMMIT \<Rightarrow>
                   (Inr [], (case working c of
                               None \<Rightarrow> c1
                             | Some w \<Rightarrow> c1\<lparr>committed := w, working := None\<rparr>))
               | ROLLBACK \<Rightarrow> (Inr [], c1\<lparr>working := None\<rparr>)
               | _ \<Rightarrow>
                   (case working c of
                      None \<Rightarrow>
                        (case exec s (committed c) (seqs c) of
                           None \<Rightarrow> (Inl (BackendError n), c1)
                         | Some (T, S, ids) \<Rightarrow> (Inr ids, c1\<lparr>committed := T, seqs := S\<rparr>))
                    | Some w \<Rightarrow>
                        (case exec s w (seqs c) of
                           None \<Rightarrow> (Inl (BackendError n), c1)
                         | Some (T, S, ids) \<Rightarrow>
                             (Inr ids, c1\<lparr>working := Some T, seqs := S\<rparr>)))))"

text \<open>\<open>result.rows[0].id\<close>\<close>

fun rows0_id :: "int list \<Rightarrow> error + int" where
  "rows0_id [] = Inl TypeError"
| "rows0_id (i # is) = Inr i"

section \<open>The batched writer of the annotation importer\<close>

text \<open>The reference records of a source file (\<open>data.cross_references\<close>).\<close>

record from_verse =
  fv_book :: jsstring
  fv_chapter :: int
  fv_verse :: int

record to_verse =
  tv_book :: jsstring
  tv_chapter :: int
  tv_verse_start :: int
  tv_verse_end :: int

record cross_reference =
  ref_from_verse :: from_verse
  ref_to_verse :: "to_verse list"
  ref_votes :: int

text \<open>The local variables of \<open>insertCrossReferences\<close>.\<close>

record writer =
  w_values :: "nat list list"
  w_params :: "param list"
  w_paramIndex :: nat
  w_insertCount :: nat

definition batchSize :: nat where
  "batchSize = 100"

definition new_writer :: writer where
  "new_writer = \<lparr>w_values = [], w_params = [], w_paramIndex = 1, w_insertCount = 0\<rparr>"

text \<open>The two \<open>push\<close> calls and the two increments of the inner loop body.\<close>

definition push_row :: "cross_reference \<Rightarrow> to_verse \<Rightarrow> writer \<Rightarrow> writer" where
  "push_row r tv w =
     (let p = w_paramIndex w; f = ref_from_verse r
      in \<lparr>w_values = w_values w @ [[p, p + 1, p + 2, p + 3, p + 4, p + 5, p + 6, p + 7]],
          w_params = w_params w @
            [PStr (fv_book f), PNum (fv_chapter f), PNum (fv_verse f),
             PStr (tv_book tv), PNum (tv_chapter tv), PNum (tv_verse_start tv),
             PNum (tv_verse_end tv), PNum (ref_votes r)],
          w_paramIndex = p + 8,
          w_insertCount = w_insertCount w + 1\<rparr>)"

fun to_verse_loop ::
  "cross_reference \<Rightarrow> to_verse list \<Rightarrow> writer \<Rightarrow> client \<Rightarrow> (error + writer) \<times> client" where
  "to_verse_loop r [] w c = (Inr w, c)"
| "to_verse_loop r (tv # tvs) w c =
     (let w1 = push_row r tv w
      in if length (w_values w1) \<ge> batchSize
         then (case query (INSERT_cross_references (w_values w1) (w_params w1)) c of
                 (Inl e, c1) \<Rightarrow> (Inl e, c1)
               | (Inr res, c1) \<Rightarrow>
                   to_verse_loop r tvs
                     (w1\<lparr>w_values := [], w_params := [], w_paramIndex := 1\<rparr>) c1)
         else to_verse_loop r tvs w1 c)"

fun cross_references_loop ::
  "cross_reference list \<Rightarrow> writer \<Rightarrow> client \<Rightarrow> (error + writer) \<times> client" where
  "cross_references_loop [] w c = (Inr w, c)"
| "cross_references_loop (r # rs) w c =
     (case to_verse_loop r (ref_to_verse r) w c of
        (Inl e, c1) \<Rightarrow> (Inl e, c1)
      | (Inr w1, c1) \<Rightarrow> cross_references_loop rs w1 c1)"

text \<open>
  \<open>insertCrossReferences(jsonPath, client)\<close>.  The file is given by what reading and
  parsing it yields: its reference records, or nothing when \<open>readFileSync\<close> or
  \<open>JSON.parse\<close> throws.
\<close>

definition insertCrossReferences ::
  "cross_reference list option \<Rightarrow> client \<Rightarrow> (error + nat) \<times> client" where
  "insertCrossReferences file c =
     (case file of
        None \<Rightarrow> (Inl LoadError, c)
      | Some refs \<Rightarrow>
          (case cross_references_loop refs new_writer c of
             (Inl e, c1) \<Rightarrow> (Inl e, c1)
           | (Inr w, c1) \<Rightarrow>
               if length (w_values w) > 0
               then (case query (INSERT_cross_references (w_values w) (w_params w)) c1 of
                       (Inl e, c2) \<Rightarrow> (Inl e, c2)
                     | (Inr res, c2) \<Rightarrow> (Inr (w_insertCount w), c2))
               else (Inr (w_insertCount w), c1)))"


section \<open>The primary text importer, direct-execution mode\<close>

text \<open>
  The source document as \<open>loadJson\<close> returns it: \<open>data.books\<close>, each book with a
  \<open>name\<close> and its \<open>chapters\<close>, each chapter with its number \<open>chapter\<close> and its
  \<open>verses\<close>, each verse with its number \<open>verse\<close> and its \<open>text\<close>.  The code tests
  \<open>chapter.verses\<close> and \<open>verse.text\<close> for absence, so a chapter may lack its verses
  and a text may be \<open>undefined\<close> or \<open>null\<close>.
\<close>

datatype jstext = JUndefined | JNull | JString jsstring

record bible_verse =
  verse_verse :: int
  verse_text :: jstext

record bible_chapter =
  chapter_chapter :: int
  chapter_verses :: "bible_verse list option"

record bible_book =
  book_name :: jsstring
  book_chapters :: "bible_chapter list"

text \<open>
  What the three loader calls (\<open>loadJson\<close>, \<open>getReadmeTitle\<close>, \<open>getLicenseInfo\<close>)
  return together.
\<close>

record source =
  data_books :: "bible_book list"
  translationName :: jsstring
  licenseInfo :: jsstring

text \<open>\<open>text.replace(/\<AE>/g, "'")\<close> on UTF-16 code units: U+00C6 becomes U+0027.\<close>

definition replace_AE :: "jsstring \<Rightarrow> jsstring" where
  "replace_AE s = map (\<lambda>u. if u = 0xC6 then 0x27 else u) s"

text \<open>
  \<open>normalizeText\<close> of \<open>generate_postgresql_direct.js\<close>.  The Unicode normalisation
  \<open>String.prototype.normalize('NFKD')\<close> is a parameter.
\<close>

definition normalizeText_direct :: "(jsstring \<Rightarrow> jsstring) \<Rightarrow> jstext \<Rightarrow> error + jsstring" where
  "normalizeText_direct nfkd t =
     (case t of
        JUndefined \<Rightarrow> Inr []
      | JNull \<Rightarrow> Inr []
      | JString s \<Rightarrow> if s = [] then Inr [] else Inr (nfkd (replace_AE s)))"

text \<open>The per-chapter locals \<open>values\<close>, \<open>params\<close> and \<open>paramIndex\<close>.\<close>

record verse_batch =
  vb_values :: "nat list list"
  vb_params :: "param list"
  vb_paramIndex :: nat

definition new_verse_batch :: verse_batch where
  "new_verse_batch = \<lparr>vb_values = [], vb_params = [], vb_paramIndex = 1\<rparr>"

fun verses_loop ::
  "(jsstring \<Rightarrow> jsstring) \<Rightarrow> int \<Rightarrow> bible_verse list \<Rightarrow> verse_batch \<Rightarrow> nat \<Rightarrow>
   error + verse_batch \<times> nat" where
  "verses_loop nfkd chapterId [] b totalVerses = Inr (b, totalVerses)"
| "verses_loop nfkd chapterId (v # vs) b totalVerses =
     (case normalizeText_direct nfkd (verse_text v) of
        Inl e \<Rightarrow> Inl e
      | Inr t \<Rightarrow>
          (let p = vb_paramIndex b
           in verses_loop nfkd chapterId vs
                \<lparr>vb_values = vb_values b @ [[p, p + 1, p + 2]],
                 vb_params = vb_params b @ [PNum chapterId, PNum (verse_verse v), PStr t],
                 vb_paramIndex = p + 3\<rparr>
                (totalVerses + 1)))"

fun chapters_loop ::
  "(jsstring \<Rightarrow> jsstring) \<Rightarrow> int \<Rightarrow> bible_chapter list \<Rightarrow> nat \<Rightarrow> client \<Rightarrow>
   (error + nat) \<times> client" where
  "chapters_loop nfkd bookId [] totalVerses c = (Inr totalVerses, c)"
| "chapters_loop nfkd bookId (ch # chs) totalVerses c =
     (case query (INSERT_chapter [PNum bookId, PNum (chapter_chapter ch)]) c of
        (Inl e, c1) \<Rightarrow> (Inl e, c1)
      | (Inr res, c1) \<Rightarrow>
          (case rows0_id res of
             Inl e \<Rightarrow> (Inl e, c1)
           | Inr chapterId \<Rightarrow>
               (case chapter_verses ch of
                  None \<Rightarrow> chapters_loop nfkd bookId chs totalVerses c1
                | Some vs \<Rightarrow>
                    if length vs > 0
                    then (case verses_loop nfkd chapterId vs new_verse_batch totalVerses of
                            Inl e \<Rightarrow> (Inl e, c1)
                          | Inr (b, totalVerses1) \<Rightarrow>
                              (case query (INSERT_verse (vb_values b) (vb_params b)) c1 of
                                 (Inl e, c2) \<Rightarrow> (Inl e, c2)
                               | (Inr res2, c2) \<Rightarrow>
                                   chapters_loop nfkd bookId chs totalVerses1 c2))
                    else chapters_loop nfkd bookId chs totalVerses c1)))"

fun books_loop ::
  "(jsstring \<Rightarrow> jsstring) \<Rightarrow> int \<Rightarrow> bible_book list \<Rightarrow> nat \<Rightarrow> nat \<Rightarrow> client \<Rightarrow>
   (error + nat) \<times> client" where
  "books_loop nfkd translationId [] bookIndex totalVerses c = (Inr totalVerses, c)"
| "books_loop nfkd translationId (b # bs) bookIndex totalVerses c =
     (case query (INSERT_book [PNum translationId, PStr (book_name b), PNum (int bookIndex + 1)]) c of
        (Inl e, c1) \<Rightarrow> (Inl e, c1)
      | (Inr res, c1) \<Rightarrow>
          (case rows0_id res of
             Inl e \<Rightarrow> (Inl e, c1)
           | Inr bookId \<Rightarrow>
               (case chapters_loop nfkd bookId (book_chapters b) totalVerses c1 of
                  (Inl e, c2) \<Rightarrow> (Inl e, c2)
                | (Inr totalVerses1, c2) \<Rightarrow>
                    books_loop nfkd translationId bs (bookIndex + 1) totalVerses1 c2)))"

text \<open>
  Sequencing of awaited calls: the first rejection ends the sequence, with the client as
  the failed call left it.
\<close>

definition await ::
  "(error + 'a) \<times> client \<Rightarrow> ('a \<Rightarrow> client \<Rightarrow> (error + 'b) \<times> client) \<Rightarrow> (error + 'b) \<times> client" where
  "await m f = (case m of (Inl e, c) \<Rightarrow> (Inl e, c) | (Inr x, c) \<Rightarrow> f x c)"

text \<open>
  The \<open>try\<close> block of \<open>generatePostgreSQLDirect\<close>.  The loader calls come after
  \<open>client.connect()\<close> and before \<open>BEGIN\<close>; \<open>src\<close> is what they return, nothing when
  one of them throws.
\<close>

definition direct_try ::
  "(jsstring \<Rightarrow> jsstring) \<Rightarrow> source option \<Rightarrow> jsstring \<Rightarrow> jsstring \<Rightarrow> client \<Rightarrow>
   (error + nat) \<times> client" where
  "direct_try nfkd src language translation c0 =
     await (connect c0) (\<lambda>u c1.
       (case src of
          None \<Rightarrow> (Inl LoadError, c1)
        | Some s \<Rightarrow>
     await (query BEGIN c1) (\<lambda>r c2.
     await (query (CREATE_TABLE_IF_NOT_EXISTS Translation) c2) (\<lambda>r c3.
     await (query (CREATE_TABLE_IF_NOT_EXISTS Book) c3) (\<lambda>r c4.
     await (query (CREATE_TABLE_IF_NOT_EXISTS Chapter) c4) (\<lambda>r c5.
     await (query (CREATE_TABLE_IF_NOT_EXISTS Verse) c5) (\<lambda>r c6.
     await (query (INSERT_translation
                     [PStr translation, PStr (translationName s), PStr language,
                      PStr (licenseInfo s)]) c6) (\<lambda>translationResult c7.
       (case rows0_id translationResult of
          Inl e \<Rightarrow> (Inl e, c7)
        | Inr translationId \<Rightarrow>
     await (books_loop nfkd translationId (data_books s) 0 0 c7) (\<lambda>totalVerses c8.
     await (query COMMIT c8) (\<lambda>r c9. (Inr totalVerses, c9))))))))))))"

text \<open>
  \<open>generatePostgreSQLDirect\<close>: the \<open>catch\<close> block sends \<open>ROLLBACK\<close>, ignores what
  that call does, and throws the error it caught; the \<open>finally\<close> block calls
  \<open>client.end()\<close> and ignores what that call does.  The function is given the backend
  (committed tables, counters, failing calls) its new client talks to.
\<close>

definition generatePostgreSQLDirect ::
  "(jsstring \<Rightarrow> jsstring) \<Rightarrow> source option \<Rightarrow> jsstring \<Rightarrow> jsstring \<Rightarrow>
   tables \<Rightarrow> seqs \<Rightarrow> nat set \<Rightarrow> (error + unit) \<times> client" where
  "generatePostgreSQLDirect nfkd src language translation T S F =
     (case direct_try nfkd src language translation (new_Client T S F) of
        (Inr totalVerses, c) \<Rightarrow> (Inr (), snd (end_client c))
      | (Inl e, c) \<Rightarrow> (Inl e, snd (end_client (snd (query ROLLBACK c)))))"

section \<open>The annotation importer, direct-execution mode\<close>

datatype outcome = Resolved | Rejected error | Exited nat

text \<open>
  \<open>process.exit(code)\<close>: the process ends on the spot.  Its socket goes with it, and
  the backend discards a transaction that was still open.  No call is made.
\<close>

definition process_exit :: "nat \<Rightarrow> client \<Rightarrow> outcome \<times> client" where
  "process_exit code c = (Exited code, c\<lparr>connected := False, working := None\<rparr>)"

fun files_loop ::
  "cross_reference list option list \<Rightarrow> nat \<Rightarrow> client \<Rightarrow> (error + nat) \<times> client" where
  "files_loop [] totalInserted c = (Inr totalInserted, c)"
| "files_loop (file # files) totalInserted c =
     (case insertCrossReferences file c of
        (Inl e, c1) \<Rightarrow> (Inl e, c1)
      | (Inr n, c1) \<Rightarrow> files_loop files (totalInserted + n) c1)"

definition main_try ::
  "cross_reference list option list \<Rightarrow> client \<Rightarrow> (error + nat) \<times> client" where
  "main_try crossRefFiles c0 =
     await (connect c0) (\<lambda>u c1.
     await (query BEGIN c1) (\<lambda>r c2.
     await (query (CREATE_TABLE_IF_NOT_EXISTS Cross_references) c2) (\<lambda>r c3.
     await (query (CREATE_INDEX_IF_NOT_EXISTS Idx_cross_references_from_book) c3) (\<lambda>r c4.
     await (query (CREATE_INDEX_IF_NOT_EXISTS Idx_cross_references_to_book) c4) (\<lambda>r c5.
     await (query (CREATE_INDEX_IF_NOT_EXISTS Idx_cross_references_from) c5) (\<lambda>r c6.
     await (query (CREATE_INDEX_IF_NOT_EXISTS Idx_cross_references_to) c6) (\<lambda>r c7.
     await (files_loop crossRefFiles 0 c7) (\<lambda>totalInserted c8.
     await (query COMMIT c8) (\<lambda>r c9. (Inr totalInserted, c9))))))))))"

text \<open>
  The direct-execution branch of \<open>main\<close> in \<open>generate_cross_references_psql.js\<close>; the
  second copy of the script makes the same calls in the same order.  \<open>credentials\<close>
  says whether \<open>dbConfig.user\<close> and \<open>dbConfig.password\<close> are set, \<open>crossRefFiles\<close> are
  the discovered files.  The \<open>catch\<close> block sends \<open>ROLLBACK\<close>, ignores what that call
  does, and calls \<open>process.exit(1)\<close>; the \<open>finally\<close> block awaits \<open>client.end()\<close>
  outside any \<open>try\<close>.
\<close>

definition main_execute ::
  "bool \<Rightarrow> cross_reference list option list \<Rightarrow> tables \<Rightarrow> seqs \<Rightarrow> nat set \<Rightarrow>
   outcome \<times> client" where
  "main_execute credentials crossRefFiles T S F =
     (if \<not> credentials then process_exit 1 (new_Client T S F)
      else (case main_try crossRefFiles (new_Client T S F) of
              (Inl e, c) \<Rightarrow> process_exit 1 (snd (query ROLLBACK c))
            | (Inr totalInserted, c) \<Rightarrow>
                (case end_client c of
                   (Inl e, c1) \<Rightarrow> (Rejected e, c1)
                 | (Inr u, c1) \<Rightarrow> (Resolved, c1))))"

section \<open>Observations on a run\<close>

text \<open>The calls a run has added to the client's record.\<close>

definition new_calls :: "client \<Rightarrow> client \<Rightarrow> call list" where
  "new_calls c c' = drop (length (calls c)) (calls c')"

text \<open>
  The flushes of the two batched writers among some calls: each multi-row insert, as
  the pair of its row-value groups and its parameter list.
\<close>

fun cross_reference_flush :: "call \<Rightarrow> (nat list list \<times> param list) list" where
  "cross_reference_flush (Query (INSERT_cross_references v p)) = [(v, p)]"
| "cross_reference_flush x = []"

fun verse_flush :: "call \<Rightarrow> (nat list list \<times> param list) list" where
  "verse_flush (Query (INSERT_verse v p)) = [(v, p)]"
| "verse_flush x = []"

definition cross_reference_flushes :: "call list \<Rightarrow> (nat list list \<times> param list) list" where
  "cross_reference_flushes cs = concat (map cross_reference_flush cs)"

definition verse_flushes :: "call list \<Rightarrow> (nat list list \<times> param list) list" where
  "verse_flushes cs = concat (map verse_flush cs)"

text \<open>
  A flushed statement of \<open>n\<close> row-value groups with columns of the given arity is
  numbered sequentially when each group has one placeholder per column, the
  placeholders read in order are \<open>$1, $2, ..., $(n * arity)\<close>, and there are
  \<open>n * arity\<close> parameters.
\<close>

definition sequentially_numbered :: "nat \<Rightarrow> nat list list \<times> param list \<Rightarrow> bool" where
  "sequentially_numbered arity fl \<longleftrightarrow>
     list_all (\<lambda>g. length g = arity) (fst fl) \<and>
     concat (fst fl) = [1..<Suc (length (fst fl) * arity)] \<and>
     length (snd fl) = length (fst fl) * arity"

text \<open>The non-empty verse arrays of a document, in document order.\<close>

definition chapter_batches :: "bible_chapter list \<Rightarrow> bible_verse list list" where
  "chapter_batches chs =
     concat (map (\<lambda>ch. case chapter_verses ch of
                          None \<Rightarrow> []
                        | Some vs \<Rightarrow> if vs = [] then [] else [vs]) chs)"

definition verse_batches :: "bible_book list \<Rightarrow> bible_verse list list" where
  "verse_batches bs = concat (map (\<lambda>b. chapter_batches (book_chapters b)) bs)"

text \<open>The sizes of the verse flushes a client has made, in order.\<close>

definition verse_flush_sizes :: "client \<Rightarrow> nat list" where
  "verse_flush_sizes c = map (\<lambda>fl. length (fst fl)) (verse_flushes (calls c))"

section \<open>Auxiliary notions for the proofs\<close>

text \<open>The row tuples of a reference file, in the order the nested loops visit them.\<close>

definition rows_of :: "cross_reference list \<Rightarrow> (cross_reference \<times> to_verse) list" where
  "rows_of refs = concat (map (\<lambda>r. map (Pair r) (ref_to_verse r)) refs)"

definition row_params :: "cross_reference \<times> to_verse \<Rightarrow> param list" where
  "row_params x = (case x of (r, tv) \<Rightarrow>
     [PStr (fv_book (ref_from_verse r)), PNum (fv_chapter (ref_from_verse r)),
      PNum (fv_verse (ref_from_verse r)),
      PStr (tv_book tv), PNum (tv_chapter tv), PNum (tv_verse_start tv),
      PNum (tv_verse_end tv), PNum (ref_votes r)])"

text \<open>The \<open>k\<close>-th row-value group (from 0) of a statement with the given arity.\<close>

definition group_at :: "nat \<Rightarrow> nat \<Rightarrow> nat list" where
  "group_at a k = [a * k + 1 ..< a * k + 1 + a]"

text \<open>The writer holds exactly the rows \<open>xs\<close>, not yet flushed.\<close>

definition pending :: "(cross_reference \<times> to_verse) list \<Rightarrow> writer \<Rightarrow> bool" where
  "pending xs w \<longleftrightarrow>
     w_values w = map (group_at 8) [0..<length xs] \<and>
     w_params w = concat (map row_params xs) \<and>
     w_paramIndex w = 8 * length xs + 1"

definition batch_stmt :: "(cross_reference \<times> to_verse) list \<Rightarrow> stmt" where
  "batch_stmt xs =
     INSERT_cross_references (map (group_at 8) [0..<length xs]) (concat (map row_params xs))"

text \<open>The two nested loops of \<open>insertCrossReferences\<close> as one loop over the row tuples.\<close>

fun rows_loop ::
  "(cross_reference \<times> to_verse) list \<Rightarrow> writer \<Rightarrow> client \<Rightarrow> (error + writer) \<times> client" where
  "rows_loop [] w c = (Inr w, c)"
| "rows_loop ((r, tv) # xs) w c =
     (let w1 = push_row r tv w
      in if length (w_values w1) \<ge> batchSize
         then (case query (INSERT_cross_references (w_values w1) (w_params w1)) c of
                 (Inl e, c1) \<Rightarrow> (Inl e, c1)
               | (Inr res, c1) \<Rightarrow>
                   rows_loop xs (w1\<lparr>w_values := [], w_params := [], w_paramIndex := 1\<rparr>) c1)
         else rows_loop xs w1 c)"

text \<open>
  The outcome of an awaited computation satisfies \<open>Q\<close> when it resolves and \<open>E\<close> when
  it rejects.
\<close>

definition post ::
  "('a \<Rightarrow> client \<Rightarrow> bool) \<Rightarrow> (error \<Rightarrow> client \<Rightarrow> bool) \<Rightarrow> (error + 'a) \<times> client \<Rightarrow> bool" where
  "post Q E m = (case m of (Inl e, c) \<Rightarrow> E e c | (Inr x, c) \<Rightarrow> Q x c)"

text \<open>What \<open>normalizeText\<close> of the direct-execution script returns, as a plain string.\<close>

definition normalized :: "(jsstring \<Rightarrow> jsstring) \<Rightarrow> jstext \<Rightarrow> jsstring" where
  "normalized nfkd t =
     (case t of JString s \<Rightarrow> if s = [] then [] else nfkd (replace_AE s) | _ \<Rightarrow> [])"

definition verse_row_params :: "(jsstring \<Rightarrow> jsstring) \<Rightarrow> int \<Rightarrow> bible_verse \<Rightarrow> param list" where
  "verse_row_params nfkd chapterId v =
     [PNum chapterId, PNum (verse_verse v), PStr (normalized nfkd (verse_text v))]"

definition verse_batch_stmt :: "(jsstring \<Rightarrow> jsstring) \<Rightarrow> int \<Rightarrow> bible_verse list \<Rightarrow> stmt" where
  "verse_batch_stmt nfkd chapterId vs =
     INSERT_verse (map (group_at 3) [0..<length vs])
       (concat (map (verse_row_params nfkd chapterId) vs))"

definition chapter_batch :: "bible_chapter \<Rightarrow> bible_verse list option" where
  "chapter_batch ch =
     (case chapter_verses ch of None \<Rightarrow> None | Some vs \<Rightarrow> if vs = [] then None else Some vs)"

text \<open>The statements of the loops of the primary importer.\<close>

definition loop_stmt :: "stmt \<Rightarrow> bool" where
  "loop_stmt s \<longleftrightarrow>
     (\<exists>ps. s = INSERT_book ps) \<or> (\<exists>ps. s = INSERT_chapter ps) \<or>
     (\<exists>nfkd chapterId vs. vs \<noteq> [] \<and> s = verse_batch_stmt nfkd chapterId vs)"

text \<open>The statements either importer sends inside its transaction.\<close>

definition data_stmt :: "stmt \<Rightarrow> bool" where
  "data_stmt s \<longleftrightarrow>
     loop_stmt s \<or> (\<exists>ys. ys \<noteq> [] \<and> s = batch_stmt ys) \<or>
     (\<exists>t. s = CREATE_TABLE_IF_NOT_EXISTS t) \<or> (\<exists>x. s = CREATE_INDEX_IF_NOT_EXISTS x) \<or>
     (\<exists>ps. s = INSERT_translation ps)"

definition good_flush :: "nat \<Rightarrow> nat list list \<times> param list \<Rightarrow> bool" where
  "good_flush a fl \<longleftrightarrow> fst fl \<noteq> [] \<and> sequentially_numbered a fl"

text \<open>Every flush made since the calls \<open>base\<close> is non-empty and numbered from 1.\<close>

definition flushes_good :: "call list \<Rightarrow> client \<Rightarrow> bool" where
  "flushes_good base c \<longleftrightarrow>
     (\<exists>new. calls c = base @ new \<and>
            list_all (good_flush 8) (cross_reference_flushes new) \<and>
            list_all (good_flush 3) (verse_flushes new))"









section \<open>Concrete inputs\<close>

definition connected_client :: client where
  "connected_client = snd (connect (new_Client empty_tables fresh_seqs {}))"

text \<open>A reference record with 101 targets: one full batch and one row more.\<close>

definition example_ref :: cross_reference where
  "example_ref =
     \<lparr>ref_from_verse = \<lparr>fv_book = [0x47, 0x65, 0x6E], fv_chapter = 1, fv_verse = 1\<rparr>,
      ref_to_verse =
        replicate 101 \<lparr>tv_book = [0x4A, 0x6F, 0x68, 0x6E], tv_chapter = 1, tv_verse_start = 1,
                        tv_verse_end = 3\<rparr>,
      ref_votes = 5\<rparr>"

text \<open>
  A document of two books, each with one chapter of three verses, and its import
  under the code \<open>K\<close> and the language \<open>en\<close>, with the identity for the
  Unicode normalisation.
\<close>

definition example_verses :: "bible_verse list" where
  "example_verses =
     [\<lparr>verse_verse = 1, verse_text = JString [0x49, 0x6E]\<rparr>,
      \<lparr>verse_verse = 2, verse_text = JString [0xC6]\<rparr>,
      \<lparr>verse_verse = 3, verse_text = JNull\<rparr>]"

definition example_source :: source where
  "example_source =
     \<lparr>data_books =
        [\<lparr>book_name = [0x47, 0x65, 0x6E],
          book_chapters = [\<lparr>chapter_chapter = 1, chapter_verses = Some example_verses\<rparr>]\<rparr>,
         \<lparr>book_name = [0x45, 0x78, 0x6F],
          book_chapters = [\<lparr>chapter_chapter = 1, chapter_verses = Some example_verses\<rparr>]\<rparr>],
      translationName = [0x4B, 0x4A, 0x56],
      licenseInfo = [0x50, 0x44]\<rparr>"

definition example_import :: "tables \<Rightarrow> seqs \<Rightarrow> nat set \<Rightarrow> (error + unit) \<times> client" where
  "example_import T S F =
     generatePostgreSQLDirect (\<lambda>s. s) (Some example_source) [0x65, 0x6E] [0x4B] T S F"

text \<open>A reference file with two row tuples.\<close>

definition two_targets :: "cross_reference list option" where
  "two_targets = Some [example_ref\<lparr>ref_to_verse := take 2 (ref_to_verse example_ref)\<rparr>]"


text \<open>A document whose chapters have no verses.\<close>

definition empty_chapters_source :: source where
  "empty_chapters_source =
     \<lparr>data_books =
        [\<lparr>book_name = [0x47, 0x65, 0x6E],
          book_chapters = [\<lparr>chapter_chapter = 1, chapter_verses = Some []\<rparr>,
                           \<lparr>chapter_chapter = 2, chapter_verses = None\<rparr>]\<rparr>],
      translationName = [0x4B, 0x4A, 0x56],
      licenseInfo = [0x50, 0x44]\<rparr>"


section \<open>The primary text importer, script-emission mode\<close>


text \<open>
  \<open>normalizeText\<close> of the script-emission script.  It has no test for an absent text:
  \<open>text.replace\<close> on \<open>null\<close> or \<open>undefined\<close> throws a \<open>TypeError\<close>.
\<close>

definition normalizeText_script :: "(jsstring \<Rightarrow> jsstring) \<Rightarrow> jstext \<Rightarrow> error + jsstring" where
  "normalizeText_script nfkd t =
     (case t of
        JString s \<Rightarrow> Inr (nfkd (replace_AE s))
      | _ \<Rightarrow> Inl TypeError)"

text \<open>
  The statements \<open>generatePostgreSQL\<close> appends to \<open>sqlContent\<close>, each with the texts
  and numbers the template interpolates; a text between quotes is carried as it stands
  between the quotes.  \<open>INSERT_book_values c n k\<close> is
  \<open>INSERT INTO book ... VALUES ((SELECT id FROM translation WHERE code = 'c'), 'n', k)\<close>;
  \<open>INSERT_chapter_values n c k\<close> looks the book up by its name \<open>n\<close> and the
  translation's code \<open>c\<close>; \<open>INSERT_verse_values n k c num txt\<close> looks the chapter up
  by the book's name \<open>n\<close>, the chapter number \<open>k\<close> and the code \<open>c\<close>.  \<open>Comment x\<close>
  is a \<open>--\<close> line that interpolates \<open>x\<close>; the comment lines without data are left out.
\<close>

datatype script_index = Idx_book_translation | Idx_chapter_book | Idx_verse_chapter

datatype script_stmt =
    Comment jsstring
  | DROP_TABLE_IF_EXISTS table_name
  | CREATE_TABLE table_name
  | CREATE_INDEX script_index
  | INSERT_translation_values jsstring jsstring jsstring jsstring
  | INSERT_book_values jsstring jsstring int
  | INSERT_chapter_values jsstring jsstring int
  | INSERT_verse_values jsstring int jsstring int jsstring






subsection \<open>Running an emitted script\<close>

text \<open>
  The text a quoted literal denotes: a doubled quote is one quote, a single quote inside
  the literal ends it early and the statement is malformed.
\<close>

fun sql_literal :: "jsstring \<Rightarrow> jsstring option" where
  "sql_literal [] = Some []"
| "sql_literal [u] = (if u = 0x27 then None else Some [u])"
| "sql_literal (u # v # us) =
     (if u = 0x27
      then (if v = 0x27 then map_option ((#) 0x27) (sql_literal us) else None)
      else map_option ((#) u) (sql_literal (v # us)))"

text \<open>
  A scalar subquery used as a value that must not be null: it yields a value when it
  selects exactly one row.
\<close>

fun the_one :: "'a list \<Rightarrow> 'a option" where
  "the_one [x] = Some x"
| "the_one xs = None"

definition select_translation_id :: "jsstring \<Rightarrow> tables \<Rightarrow> int option" where
  "select_translation_id code T =
     the_one (map tr_id (filter (\<lambda>r. tr_code r = code) (translation_tbl T)))"

definition select_book_id :: "jsstring \<Rightarrow> int \<Rightarrow> tables \<Rightarrow> int option" where
  "select_book_id n t T =
     the_one (map bk_id (filter (\<lambda>b. bk_name b = n \<and> bk_translation_id b = t) (book_tbl T)))"

text \<open>
  \<open>SELECT c.id FROM chapter c JOIN book b ON c.book_id = b.id WHERE b.name = n AND
  c.chapter_number = k AND b.translation_id = t\<close>
\<close>

definition select_chapter_id :: "jsstring \<Rightarrow> int \<Rightarrow> int \<Rightarrow> tables \<Rightarrow> int option" where
  "select_chapter_id n k t T =
     the_one (concat (map (\<lambda>c. map (\<lambda>b. ch_id c)
                                (filter (\<lambda>b. ch_book_id c = bk_id b \<and> bk_name b = n \<and>
                                             bk_translation_id b = t) (book_tbl T)))
                          (filter (\<lambda>c. ch_chapter_number c = k) (chapter_tbl T))))"

text \<open>
  The rows a book, a chapter and a batch of verses add, with their identifiers taken
  from the counters.
\<close>

fun verse_rows :: "(jsstring \<Rightarrow> jsstring) \<Rightarrow> int \<Rightarrow> int \<Rightarrow> bible_verse list \<Rightarrow> verse_row list" where
  "verse_rows nfkd chapterId i [] = []"
| "verse_rows nfkd chapterId i (v # vs) =
     \<lparr>vs_id = i, vs_chapter_id = chapterId, vs_verse_number = verse_verse v,
      vs_text = normalized nfkd (verse_text v)\<rparr> # verse_rows nfkd chapterId (i + 1) vs"

definition add_book :: "int \<Rightarrow> jsstring \<Rightarrow> int \<Rightarrow> tables \<times> seqs \<Rightarrow> tables \<times> seqs" where
  "add_book translationId n k TS =
     (case TS of (T, S) \<Rightarrow>
        (T\<lparr>book_tbl := book_tbl T @
             [\<lparr>bk_id = book_id_seq S, bk_translation_id = translationId, bk_name = n,
               bk_book_number = k\<rparr>]\<rparr>,
         S\<lparr>book_id_seq := book_id_seq S + 1\<rparr>))"

definition add_chapter :: "int \<Rightarrow> int \<Rightarrow> tables \<times> seqs \<Rightarrow> tables \<times> seqs" where
  "add_chapter bookId k TS =
     (case TS of (T, S) \<Rightarrow>
        (T\<lparr>chapter_tbl := chapter_tbl T @
             [\<lparr>ch_id = chapter_id_seq S, ch_book_id = bookId, ch_chapter_number = k\<rparr>]\<rparr>,
         S\<lparr>chapter_id_seq := chapter_id_seq S + 1\<rparr>))"

definition add_verses ::
  "(jsstring \<Rightarrow> jsstring) \<Rightarrow> int \<Rightarrow> bible_verse list \<Rightarrow> tables \<times> seqs \<Rightarrow> tables \<times> seqs" where
  "add_verses nfkd chapterId vs TS =
     (case TS of (T, S) \<Rightarrow>
        (T\<lparr>verse_tbl := verse_tbl T @ verse_rows nfkd chapterId (verse_id_seq S) vs\<rparr>,
         S\<lparr>verse_id_seq := verse_id_seq S + int (length vs)\<rparr>))"

text \<open>
  What one statement of a script does; \<open>None\<close> when the backend rejects it.  Dropping
  a table drops its identifier counter with it, and a created table starts a new one.
\<close>

fun exec_sql :: "script_stmt \<Rightarrow> tables \<times> seqs \<Rightarrow> (tables \<times> seqs) option" where
  "exec_sql (Comment x) TS = Some TS"
| "exec_sql (DROP_TABLE_IF_EXISTS Translation) (T, S) =
     Some (T\<lparr>translation_tbl := []\<rparr>, S\<lparr>translation_id_seq := 1\<rparr>)"
| "exec_sql (DROP_TABLE_IF_EXISTS Book) (T, S) =
     Some (T\<lparr>book_tbl := []\<rparr>, S\<lparr>book_id_seq := 1\<rparr>)"
| "exec_sql (DROP_TABLE_IF_EXISTS Chapter) (T, S) =
     Some (T\<lparr>chapter_tbl := []\<rparr>, S\<lparr>chapter_id_seq := 1\<rparr>)"
| "exec_sql (DROP_TABLE_IF_EXISTS Verse) (T, S) =
     Some (T\<lparr>verse_tbl := []\<rparr>, S\<lparr>verse_id_seq := 1\<rparr>)"
| "exec_sql (DROP_TABLE_IF_EXISTS Cross_references) (T, S) =
     Some (T\<lparr>cross_references_tbl := []\<rparr>, S\<lparr>cross_references_id_seq := 1\<rparr>)"
| "exec_sql (CREATE_TABLE t) TS = Some TS"
| "exec_sql (CREATE_INDEX x) TS = Some TS"
| "exec_sql (INSERT_translation_values c n l lic) (T, S) =
     (case (sql_literal c, sql_literal n, sql_literal l, sql_literal lic) of
        (Some c', Some n', Some l', Some lic') \<Rightarrow>
          if c' \<in> tr_code ` set (translation_tbl T) then None
          else Some (T\<lparr>translation_tbl := translation_tbl T @
                         [\<lparr>tr_id = translation_id_seq S, tr_code = c', tr_name = n',
                           tr_language = l', tr_license = lic'\<rparr>]\<rparr>,
                     S\<lparr>translation_id_seq := translation_id_seq S + 1\<rparr>)
      | _ \<Rightarrow> None)"
| "exec_sql (INSERT_book_values c n k) (T, S) =
     (case (sql_literal c, sql_literal n) of
        (Some c', Some n') \<Rightarrow>
          (case select_translation_id c' T of
             None \<Rightarrow> None
           | Some t \<Rightarrow> Some (add_book t n' k (T, S)))
      | _ \<Rightarrow> None)"
| "exec_sql (INSERT_chapter_values n c k) (T, S) =
     (case (sql_literal n, sql_literal c) of
        (Some n', Some c') \<Rightarrow>
          (case select_translation_id c' T of
             None \<Rightarrow> None
           | Some t \<Rightarrow>
               (case select_book_id n' t T of
                  None \<Rightarrow> None
                | Some b \<Rightarrow> Some (add_chapter b k (T, S))))
      | _ \<Rightarrow> None)"
| "exec_sql (INSERT_verse_values n k c num txt) (T, S) =
     (case (sql_literal n, sql_literal c, sql_literal txt) of
        (Some n', Some c', Some txt') \<Rightarrow>
          (case select_translation_id c' T of
             None \<Rightarrow> None
           | Some t \<Rightarrow>
               (case select_chapter_id n' k t T of
                  None \<Rightarrow> None
                | Some ch \<Rightarrow>
                    Some (T\<lparr>verse_tbl := verse_tbl T @
                              [\<lparr>vs_id = verse_id_seq S, vs_chapter_id = ch, vs_verse_number = num,
                                vs_text = txt'\<rparr>]\<rparr>,
                          S\<lparr>verse_id_seq := verse_id_seq S + 1\<rparr>)))
      | _ \<Rightarrow> None)"



definition psql_step :: "script_stmt \<Rightarrow> tables \<times> seqs \<Rightarrow> tables \<times> seqs" where
  "psql_step s TS = (case exec_sql s TS of None \<Rightarrow> TS | Some TS' \<Rightarrow> TS')"



section \<open>Auxiliary notions for the importers\<close>

text \<open>What the loops of the primary importer do to the tables when no call fails.\<close>

fun chapters_effect ::
  "(jsstring \<Rightarrow> jsstring) \<Rightarrow> int \<Rightarrow> bible_chapter list \<Rightarrow> tables \<times> seqs \<Rightarrow> tables \<times> seqs" where
  "chapters_effect nfkd bookId [] TS = TS"
| "chapters_effect nfkd bookId (ch # chs) TS =
     chapters_effect nfkd bookId chs
       (case chapter_batch ch of
          None \<Rightarrow> add_chapter bookId (chapter_chapter ch) TS
        | Some vs \<Rightarrow>
            add_verses nfkd (chapter_id_seq (snd TS)) vs
              (add_chapter bookId (chapter_chapter ch) TS))"

fun books_effect ::
  "(jsstring \<Rightarrow> jsstring) \<Rightarrow> int \<Rightarrow> bible_book list \<Rightarrow> nat \<Rightarrow> tables \<times> seqs \<Rightarrow> tables \<times> seqs" where
  "books_effect nfkd translationId [] bookIndex TS = TS"
| "books_effect nfkd translationId (b # bs) bookIndex TS =
     books_effect nfkd translationId bs (bookIndex + 1)
       (chapters_effect nfkd (book_id_seq (snd TS)) (book_chapters b)
          (add_book translationId (book_name b) (int bookIndex + 1) TS))"

text \<open>
  A connected client inside a transaction, with no failing calls ahead, whose
  transaction holds the given tables and counters.
\<close>

definition in_txn :: "tables \<Rightarrow> tables \<times> seqs \<Rightarrow> client \<Rightarrow> bool" where
  "in_txn T0 WS c \<longleftrightarrow>
     connected c \<and> faults c = {} \<and> committed c = T0 \<and> working c = Some (fst WS) \<and>
     seqs c = snd WS"

text \<open>What the upsert of the \<open>translation\<close> row does, and the identifier it returns.\<close>

definition upserted ::
  "jsstring \<Rightarrow> jsstring \<Rightarrow> jsstring \<Rightarrow> jsstring \<Rightarrow> tables \<times> seqs \<Rightarrow> (tables \<times> seqs) \<times> int" where
  "upserted code n l lic TS =
     (case TS of (T, S) \<Rightarrow>
        (case upsert_translation code n l lic (translation_tbl T) of
           Some (rs, i) \<Rightarrow> ((T\<lparr>translation_tbl := rs\<rparr>, S), i)
         | None \<Rightarrow>
             ((T\<lparr>translation_tbl := translation_tbl T @
                   [\<lparr>tr_id = translation_id_seq S, tr_code = code, tr_name = n,
                     tr_language = l, tr_license = lic\<rparr>]\<rparr>,
               S\<lparr>translation_id_seq := translation_id_seq S + 1\<rparr>),
              translation_id_seq S)))"

definition direct_effect ::
  "(jsstring \<Rightarrow> jsstring) \<Rightarrow> source \<Rightarrow> jsstring \<Rightarrow> jsstring \<Rightarrow> tables \<times> seqs \<Rightarrow> tables \<times> seqs" where
  "direct_effect nfkd s language translation TS =
     (let u = upserted translation (translationName s) language (licenseInfo s) TS
      in books_effect nfkd (snd u) (data_books s) 0 (fst u))"

text \<open>The open transaction holds the given \<open>translation\<close> rows.\<close>

definition holds_translation :: "translation_row list \<Rightarrow> client \<Rightarrow> bool" where
  "holds_translation X c \<longleftrightarrow> (\<exists>W. working c = Some W \<and> translation_tbl W = X)"

text \<open>
  The example document imported into the empty store, and imported again under the same
  code with another name, language and licence.
\<close>

definition revised_source :: source where
  "revised_source = example_source\<lparr>translationName := [0x4E, 0x65, 0x77], licenseInfo := [0x43, 0x43]\<rparr>"

definition first_import :: "(error + unit) \<times> client" where
  "first_import = example_import empty_tables fresh_seqs {}"

definition second_import :: "(error + unit) \<times> client" where
  "second_import =
     generatePostgreSQLDirect (\<lambda>s. s) (Some revised_source) [0x66, 0x72] [0x4B]
       (committed (snd first_import)) (seqs (snd first_import)) {}"







section \<open>The batched writer: lemmas\<close>

lemma to_verse_loop_rows: "to_verse_loop r tvs w c = rows_loop (map (Pair r) tvs) w c"
  by (induction tvs arbitrary: w c) (auto simp: Let_def split: prod.splits sum.splits)

lemma rows_loop_append:
  "rows_loop (xs @ ys) w c =
     (case rows_loop xs w c of (Inl e, c1) \<Rightarrow> (Inl e, c1) | (Inr w1, c1) \<Rightarrow> rows_loop ys w1 c1)"
  by (induction xs w c rule: rows_loop.induct) (auto simp: Let_def split: prod.splits sum.splits)

lemma cross_references_loop_rows:
  "cross_references_loop refs w c = rows_loop (rows_of refs) w c"
  by (induction refs arbitrary: w c)
     (auto simp: rows_of_def to_verse_loop_rows rows_loop_append split: prod.splits sum.splits)

lemma query_calls: "calls (snd (query s c)) = calls c @ [Query s]"
  by (cases s) (auto simp: query_def Let_def split: option.splits prod.splits)


lemma query_connected: "connected (snd (query s c)) = connected c"
  by (cases s) (auto simp: query_def Let_def split: option.splits prod.splits)

lemma query_committed:
  "working c \<noteq> None \<Longrightarrow> s \<noteq> COMMIT \<Longrightarrow> committed (snd (query s c)) = committed c"
  by (cases s) (auto simp: query_def Let_def split: option.splits prod.splits)

lemma length_row_params: "length (row_params x) = 8"
  by (simp add: row_params_def split: prod.splits)

lemma concat_group_at: "concat (map (group_at a) [0..<n]) = [1..<Suc (a * n)]"
proof (induction n)
  case 0 show ?case by simp
next
  case (Suc n)
  have "[1..<Suc (a * n)] @ [a * n + 1..<a * n + 1 + a] = [1..<a * n + 1 + a]"
    by (metis Suc_eq_plus1 le_add1 upt_add_eq_append add.commute)
  with Suc show ?case by (simp add: group_at_def add.commute)
qed


lemma group_at_8:
  "group_at 8 k = [8 * k + 1, 8 * k + 2, 8 * k + 3, 8 * k + 4, 8 * k + 5, 8 * k + 6, 8 * k + 7, 8 * k + 8]"
  by (simp add: group_at_def upt_rec)

lemma group_at_3: "group_at 3 k = [3 * k + 1, 3 * k + 2, 3 * k + 3]"
  by (simp add: group_at_def upt_rec)

lemma pending_new: "pending [] new_writer"
  by (simp add: pending_def new_writer_def)

lemma pending_push: "pending ps w \<Longrightarrow> pending (ps @ [(r, tv)]) (push_row r tv w)"
  by (simp add: pending_def push_row_def Let_def group_at_8 row_params_def)

lemma pending_reset:
  "pending [] (w\<lparr>w_values := [], w_params := [], w_paramIndex := 1\<rparr>)"
  by (simp add: pending_def)

lemma pending_length: "pending ps w \<Longrightarrow> length (w_values w) = length ps"
  by (simp add: pending_def)

lemma concat_nth_uniform:
  "\<forall>x\<in>set xs. length (f x) = a \<Longrightarrow> k < length xs \<Longrightarrow> j < a \<Longrightarrow>
     concat (map f xs) ! (a * k + j) = f (xs ! k) ! j"
proof (induction xs arbitrary: k)
  case Nil then show ?case by simp
next
  case (Cons x xs)
  show ?case
  proof (cases k)
    case 0 with Cons.prems show ?thesis by (simp add: nth_append)
  next
    case (Suc k')
    with Cons.prems have "concat (map f xs) ! (a * k' + j) = f (xs ! k') ! j"
      by (intro Cons.IH) auto
    moreover have "a * k + j = length (f x) + (a * k' + j)"
      using Cons.prems Suc by simp
    ultimately show ?thesis using Suc by (simp add: nth_append)
  qed
qed

lemma length_concat_uniform:
  "\<forall>x\<in>set xs. length (f x) = a \<Longrightarrow> length (concat (map f xs)) = a * length xs"
  by (induction xs) auto

lemma length_group_at: "length (group_at a k) = a"
  unfolding group_at_def by (simp only: length_upt)

lemma nth_group_at: "j < a \<Longrightarrow> group_at a k ! j = a * k + 1 + j"
  unfolding group_at_def by (simp only: nth_upt)

lemma bind_group_at:
  assumes "\<forall>x\<in>set xs. length (f x) = a" "k < length xs"
  shows "bind_group (concat (map f xs)) (group_at a k) = f (xs ! k)"
proof (rule nth_equalityI)
  show "length (bind_group (concat (map f xs)) (group_at a k)) = length (f (xs ! k))"
    using assms by (simp add: bind_group_def length_group_at)
next
  fix j assume "j < length (bind_group (concat (map f xs)) (group_at a k))"
  then have j: "j < a" by (simp add: bind_group_def length_group_at)
  then show "bind_group (concat (map f xs)) (group_at a k) ! j = f (xs ! k) ! j"
    using concat_nth_uniform[OF assms j] by (simp add: bind_group_def length_group_at nth_group_at)
qed

lemma bind_groups:
  assumes "\<forall>x\<in>set xs. length (f x) = a"
  shows "map (bind_group (concat (map f xs))) (map (group_at a) [0..<length xs]) = map f xs"
  by (rule nth_equalityI) (simp_all add: bind_group_at[OF assms] del: map_map)

lemma placeholders_ok_groups:
  assumes "0 < n" "length ps = a * n"
  shows "placeholders_ok (map (group_at a) [0..<n]) ps"
proof -
  have "concat (map (group_at a) [0..<n]) = [1..<Suc (length ps)]"
    using assms by (simp add: concat_group_at)
  moreover have "map (group_at a) [0..<n] \<noteq> []" using assms by simp
  ultimately show ?thesis
    unfolding placeholders_ok_def by (auto simp: list_all_iff)
qed

lemma rows_from_cross_references:
  "\<exists>rs. rows_from cross_reference_of_params i (map row_params xs) = Some rs \<and>
        length rs = length xs"
proof (induction xs arbitrary: i)
  case Nil show ?case by simp
next
  case (Cons x xs)
  obtain rs where "rows_from cross_reference_of_params (i + 1) (map row_params xs) = Some rs"
    "length rs = length xs" using Cons.IH by blast
  moreover obtain r tv where x: "x = (r, tv)" by (cases x)
  moreover have "\<exists>row. cross_reference_of_params i (row_params (r, tv)) = Some row"
    by (simp add: row_params_def)
  ultimately show ?case by auto
qed

lemma exec_batch_stmt:
  assumes "xs \<noteq> []"
  shows "\<exists>T' S'. exec (batch_stmt xs) T S = Some (T', S', [])"
proof -
  have len: "\<forall>x\<in>set xs. length (row_params x) = 8" by (simp add: length_row_params)
  have "placeholders_ok (map (group_at 8) [0..<length xs]) (concat (map row_params xs))"
    using assms by (intro placeholders_ok_groups) (simp_all add: length_concat_uniform[OF len])
  moreover obtain rs where
    "rows_from cross_reference_of_params (cross_references_id_seq S) (map row_params xs) = Some rs"
    using rows_from_cross_references by blast
  ultimately show ?thesis
    by (simp add: batch_stmt_def bind_groups[OF len] del: map_map)
qed

lemma query_ok:
  assumes "connected c" "faults c = {}" "s \<noteq> BEGIN" "s \<noteq> COMMIT" "s \<noteq> ROLLBACK"
    and ex: "\<And>T S. \<exists>T' S' ids. exec s T S = Some (T', S', ids)"
  shows "\<exists>res c1. query s c = (Inr res, c1) \<and> connected c1 \<and> faults c1 = {} \<and>
           calls c1 = calls c @ [Query s] \<and> committed c1 = (if working c = None then committed c1 else committed c) \<and>
           (working c1 = None) = (working c = None)"
proof (cases "working c")
  case None
  obtain T' S' ids where "exec s (committed c) (seqs c) = Some (T', S', ids)"
    using ex by blast
  with None assms(1-5) show ?thesis
    by (cases s) (simp_all add: query_def Let_def)
next
  case (Some w)
  obtain T' S' ids where "exec s w (seqs c) = Some (T', S', ids)"
    using ex by blast
  with Some assms(1-5) show ?thesis
    by (cases s) (simp_all add: query_def Let_def)
qed

lemma query_batch_ok:
  assumes "xs \<noteq> []" "connected c" "faults c = {}"
  shows "\<exists>res c1. query (batch_stmt xs) c = (Inr res, c1) \<and> connected c1 \<and> faults c1 = {} \<and>
           calls c1 = calls c @ [Query (batch_stmt xs)]"
proof -
  have "\<exists>T' S' ids. exec (batch_stmt xs) T S = Some (T', S', ids)" for T S
    using exec_batch_stmt[OF assms(1)] by blast
  from query_ok[OF assms(2,3) _ _ _ this] show ?thesis
    by (auto simp: batch_stmt_def)
qed


lemma cross_reference_flushes_append: "cross_reference_flushes (xs @ ys) = cross_reference_flushes xs @ cross_reference_flushes ys"
  by (simp add: cross_reference_flushes_def)

lemma cross_reference_flushes_Cons: "cross_reference_flushes (x # xs) = cross_reference_flush x @ cross_reference_flushes xs"
  by (simp add: cross_reference_flushes_def)

lemma cross_reference_flushes_Nil: "cross_reference_flushes [] = []"
  by (simp add: cross_reference_flushes_def)

lemma pending_stmt:
  "pending ps w \<Longrightarrow> INSERT_cross_references (w_values w) (w_params w) = batch_stmt ps"
  by (simp add: pending_def batch_stmt_def)

lemma rows_loop_ok:
  "connected c \<Longrightarrow> faults c = {} \<Longrightarrow> pending ps w \<Longrightarrow> length ps < batchSize \<Longrightarrow>
   \<exists>w' c' new ps'. rows_loop xs w c = (Inr w', c') \<and> connected c' \<and> faults c' = {} \<and>
      pending ps' w' \<and> length ps' = (length ps + length xs) mod batchSize \<and>
      w_insertCount w' = w_insertCount w + length xs \<and>
      calls c' = calls c @ new \<and>
      map (\<lambda>(v, p). length v) (cross_reference_flushes new) =
        replicate ((length ps + length xs) div batchSize) batchSize \<and>
      map (\<lambda>(v, p). length p) (cross_reference_flushes new) =
        replicate ((length ps + length xs) div batchSize) (8 * batchSize)"
proof (induction xs arbitrary: ps w c)
  case Nil
  then show ?case by (auto simp: cross_reference_flushes_Nil)
next
  case (Cons x xs)
  obtain r tv where x: "x = (r, tv)" by (cases x)
  let ?w1 = "push_row r tv w"
  let ?ps1 = "ps @ [(r, tv)]"
  have p1: "pending ?ps1 ?w1" using Cons.prems(3) by (rule pending_push)
  have len1: "length (w_values ?w1) = Suc (length ps)"
    using pending_length[OF p1] by simp
  have cnt1: "w_insertCount ?w1 = Suc (w_insertCount w)"
    by (simp add: push_row_def Let_def)
  show ?case
  proof (cases "batchSize \<le> Suc (length ps)")
    case True
    with Cons.prems(4) have full: "Suc (length ps) = batchSize" by simp
    obtain res c1 where q: "query (batch_stmt ?ps1) c = (Inr res, c1)"
      and c1: "connected c1" "faults c1 = {}"
      and calls1: "calls c1 = calls c @ [Query (batch_stmt ?ps1)]"
      using query_batch_ok[of ?ps1 c] Cons.prems(1,2) by auto
    let ?w2 = "?w1\<lparr>w_values := [], w_params := [], w_paramIndex := 1\<rparr>"
    have p2: "pending [] ?w2" by (rule pending_reset)
    have "length ([] :: (cross_reference \<times> to_verse) list) < batchSize"
      by (simp add: batchSize_def)
    from Cons.IH[OF c1 p2 this]
    obtain w' c' new ps' where ih: "rows_loop xs ?w2 c1 = (Inr w', c')" "connected c'"
      "faults c' = {}" "pending ps' w'" "length ps' = (length xs) mod batchSize"
      "w_insertCount w' = w_insertCount ?w2 + length xs" "calls c' = calls c1 @ new"
      "map (\<lambda>(v, p). length v) (cross_reference_flushes new) = replicate (length xs div batchSize) batchSize"
      "map (\<lambda>(v, p). length p) (cross_reference_flushes new) = replicate (length xs div batchSize) (8 * batchSize)"
      by auto
    have run: "rows_loop (x # xs) w c = (Inr w', c')"
      using True q ih(1) len1 pending_stmt[OF p1] by (simp add: x Let_def)
    have tot: "length ps + length (x # xs) = batchSize + length xs" using full by simp
    have bpos: "0 < batchSize" by (simp add: batchSize_def)
    have d: "(length ps + length (x # xs)) div batchSize = Suc (length xs div batchSize)"
      and m: "(length ps + length (x # xs)) mod batchSize = length xs mod batchSize"
      using bpos unfolding tot by (simp_all add: div_add_self1)
    have lenp: "length (concat (map row_params ?ps1)) = 8 * batchSize"
      using full by (simp add: length_concat_uniform[of _ row_params 8] length_row_params)
    have fl: "cross_reference_flush (Query (batch_stmt ?ps1)) =
                [(map (group_at 8) [0..<length ?ps1], concat (map row_params ?ps1))]"
      by (simp add: batch_stmt_def)
    have "calls c' = calls c @ (Query (batch_stmt ?ps1) # new)"
      using ih(7) calls1 by simp
    moreover have "map (\<lambda>(v, p). length v) (cross_reference_flushes (Query (batch_stmt ?ps1) # new)) =
        replicate ((length ps + length (x # xs)) div batchSize) batchSize"
      unfolding d cross_reference_flushes_Cons fl using ih(8) full by simp
    moreover have "map (\<lambda>(v, p). length p) (cross_reference_flushes (Query (batch_stmt ?ps1) # new)) =
        replicate ((length ps + length (x # xs)) div batchSize) (8 * batchSize)"
      unfolding d cross_reference_flushes_Cons fl using ih(9) lenp by simp
    moreover have "w_insertCount w' = w_insertCount w + length (x # xs)"
      using ih(6) cnt1 by simp
    moreover have "length ps' = (length ps + length (x # xs)) mod batchSize"
      using ih(5) m by simp
    ultimately show ?thesis using run ih(2,3,4) by blast
  next
    case False
    then have small: "length ?ps1 < batchSize" by simp
    from Cons.IH[OF Cons.prems(1,2) p1 small]
    obtain w' c' new ps' where ih: "rows_loop xs ?w1 c = (Inr w', c')" "connected c'"
      "faults c' = {}" "pending ps' w'" "length ps' = (length ?ps1 + length xs) mod batchSize"
      "w_insertCount w' = w_insertCount ?w1 + length xs" "calls c' = calls c @ new"
      "map (\<lambda>(v, p). length v) (cross_reference_flushes new) =
         replicate ((length ?ps1 + length xs) div batchSize) batchSize"
      "map (\<lambda>(v, p). length p) (cross_reference_flushes new) =
         replicate ((length ?ps1 + length xs) div batchSize) (8 * batchSize)"
      by auto
    have run: "rows_loop (x # xs) w c = (Inr w', c')"
      using False ih(1) len1 by (simp add: x Let_def)
    have tot: "length ?ps1 + length xs = length ps + length (x # xs)" by simp
    show ?thesis using run ih(2-9) cnt1 unfolding tot by auto
  qed
qed


lemma length_rows_of: "length (rows_of refs) = (\<Sum>r\<leftarrow>refs. length (ref_to_verse r))"
  by (induction refs) (simp_all add: rows_of_def)

lemma new_calls_append: "calls c' = calls c @ new \<Longrightarrow> new_calls c c' = new"
  by (simp add: new_calls_def)



lemma insertCrossReferences_ok:
  fixes refs :: "cross_reference list" and c :: client
  assumes "connected c" "faults c = {}"
  defines "run \<equiv> insertCrossReferences (Some refs) c"
  defines "L \<equiv> length (rows_of refs)"
  shows "fst run = Inr L"
    and "connected (snd run)" and "faults (snd run) = {}"
    and "map (\<lambda>x. length (fst x)) (cross_reference_flushes (new_calls c (snd run))) =
           replicate (L div batchSize) batchSize @
           (if L mod batchSize = 0 then [] else [L mod batchSize])"
    and "map (\<lambda>x. length (snd x)) (cross_reference_flushes (new_calls c (snd run))) =
           replicate (L div batchSize) (8 * batchSize) @
           (if L mod batchSize = 0 then [] else [8 * (L mod batchSize)])"
proof -
  have "length ([] :: (cross_reference \<times> to_verse) list) < batchSize"
    by (simp add: batchSize_def)
  from rows_loop_ok[OF assms(1,2) pending_new this, of "rows_of refs"]
  obtain w' c' new ps' where lp: "rows_loop (rows_of refs) new_writer c = (Inr w', c')"
    "connected c'" "faults c' = {}" "pending ps' w'" "length ps' = L mod batchSize"
    "w_insertCount w' = L" "calls c' = calls c @ new"
    "map (\<lambda>(v, p). length v) (cross_reference_flushes new) = replicate (L div batchSize) batchSize"
    "map (\<lambda>(v, p). length p) (cross_reference_flushes new) = replicate (L div batchSize) (8 * batchSize)"
    unfolding L_def by (auto simp: new_writer_def)
  have f1: "(\<lambda>(v, p). length v) = (\<lambda>x :: nat list list \<times> param list. length (fst x))"
    and f2: "(\<lambda>(v, p). length p) = (\<lambda>x :: nat list list \<times> param list. length (snd x))"
    by auto
  note s1 = lp(8)[unfolded f1] and s2 = lp(9)[unfolded f2]
  have "fst run = Inr L \<and> connected (snd run) \<and> faults (snd run) = {} \<and>
        map (\<lambda>x. length (fst x)) (cross_reference_flushes (new_calls c (snd run))) =
           replicate (L div batchSize) batchSize @
           (if L mod batchSize = 0 then [] else [L mod batchSize]) \<and>
        map (\<lambda>x. length (snd x)) (cross_reference_flushes (new_calls c (snd run))) =
           replicate (L div batchSize) (8 * batchSize) @
           (if L mod batchSize = 0 then [] else [8 * (L mod batchSize)])"
  proof (cases "L mod batchSize = 0")
    case True
    then have "length (w_values w') = 0" using pending_length[OF lp(4)] lp(5) by simp
    then have run: "run = (Inr L, c')"
      using lp(1,6) by (simp add: run_def insertCrossReferences_def cross_references_loop_rows)
    have "cross_reference_flushes (new_calls c c') = cross_reference_flushes new"
      using new_calls_append[OF lp(7)] by simp
    then show ?thesis using lp(2,3) s1 s2 True by (simp add: run)
  next
    case False
    then have ne: "ps' \<noteq> []" using lp(5) by auto
    have pos: "0 < length (w_values w')" using pending_length[OF lp(4)] ne by simp
    obtain res c2 where q: "query (batch_stmt ps') c' = (Inr res, c2)"
      "connected c2" "faults c2 = {}" "calls c2 = calls c' @ [Query (batch_stmt ps')]"
      using query_batch_ok[OF ne lp(2,3)] by blast
    have run: "run = (Inr L, c2)"
      using lp(1,6) pos q(1) pending_stmt[OF lp(4)]
      by (simp add: run_def insertCrossReferences_def cross_references_loop_rows)
    have "calls c2 = calls c @ (new @ [Query (batch_stmt ps')])"
      using q(4) lp(7) by simp
    then have "new_calls c c2 = new @ [Query (batch_stmt ps')]"
      by (rule new_calls_append)
    then have nc: "cross_reference_flushes (new_calls c c2) =
        cross_reference_flushes new @ [(map (group_at 8) [0..<length ps'], concat (map row_params ps'))]"
      by (simp add: cross_reference_flushes_append cross_reference_flushes_Cons cross_reference_flushes_Nil batch_stmt_def)
    have lenp: "length (concat (map row_params ps')) = 8 * (L mod batchSize)"
      using lp(5) by (simp add: length_concat_uniform[of _ row_params 8] length_row_params)
    show ?thesis
      using q(2,3) False lp(5) s1 s2 lenp by (simp add: run nc)
  qed
  then show "fst run = Inr L"
    and "connected (snd run)" and "faults (snd run) = {}"
    and "map (\<lambda>x. length (fst x)) (cross_reference_flushes (new_calls c (snd run))) =
           replicate (L div batchSize) batchSize @
           (if L mod batchSize = 0 then [] else [L mod batchSize])"
    and "map (\<lambda>x. length (snd x)) (cross_reference_flushes (new_calls c (snd run))) =
           replicate (L div batchSize) (8 * batchSize) @
           (if L mod batchSize = 0 then [] else [8 * (L mod batchSize)])"
    by blast+
qed




lemma ceil_div:
  fixes L B :: nat
  assumes "0 < B"
  shows "(L + B - 1) div B = L div B + (if L mod B = 0 then 0 else 1)"
proof -
  define q where "q = L div B"
  define m where "m = L mod B"
  have L: "L = B * q + m" and m: "m < B"
    using assms by (simp_all add: q_def m_def)
  have "(B * q + m + B - 1) div B = q + (if m = 0 then 0 else 1)"
  proof (cases "m = 0")
    case True
    have "(B * q + B - 1) div B = q"
      using assms by (intro div_nat_eqI) (simp_all add: algebra_simps)
    with True show ?thesis by simp
  next
    case False
    have "(B * q + m + B - 1) div B = Suc q"
      using assms m False by (intro div_nat_eqI) (simp_all add: algebra_simps)
    with False show ?thesis by simp
  qed
  then show ?thesis unfolding q_def m_def by (simp only: mult_div_mod_eq)
qed

lemma div_pos_of_mod0: "(0::nat) < L \<Longrightarrow> L mod B = 0 \<Longrightarrow> 0 < L div B"
  using div_mult_mod_eq[of L B] by (cases "L div B") simp_all

lemma sum_parts: "a * B * (L div B) + a * (L mod B) = (L::nat) * a"
proof -
  have "L * a = (L div B * B + L mod B) * a" by simp
  also have "\<dots> = a * B * (L div B) + a * (L mod B)" by (simp only: algebra_simps)
  finally show ?thesis by simp
qed

lemma batch_sizes_facts:
  fixes f :: "'a \<Rightarrow> nat"
  assumes B: "0 < B"
    and fl: "map f fl = replicate (L div B) B @ (if L mod B = 0 then [] else [L mod B])"
  shows "length fl = (L + B - 1) div B"
    and "\<forall>k. Suc k < length fl \<longrightarrow> f (fl ! k) = B"
    and "0 < L \<longrightarrow> f (last fl) = (if L mod B = 0 then B else L mod B)"
proof -
  have len: "length fl = L div B + (if L mod B = 0 then 0 else 1)"
    using arg_cong[OF fl, of length] by (simp split: if_splits)
  show "length fl = (L + B - 1) div B" unfolding len ceil_div[OF B] ..
  show "\<forall>k. Suc k < length fl \<longrightarrow> f (fl ! k) = B"
  proof (intro allI impI)
    fix k assume k: "Suc k < length fl"
    then have "k < L div B" using len by (simp split: if_splits)
    moreover have "f (fl ! k) = map f fl ! k" using k by simp
    ultimately show "f (fl ! k) = B" unfolding fl by (simp add: nth_append)
  qed
  show "0 < L \<longrightarrow> f (last fl) = (if L mod B = 0 then B else L mod B)"
  proof
    assume L: "0 < L"
    have ne: "fl \<noteq> []"
    proof (cases "L mod B = 0")
      case True
      then have "0 < L div B" using L by (intro div_pos_of_mod0)
      then show ?thesis using len by auto
    next
      case False then show ?thesis using len by auto
    qed
    then have "f (last fl) = last (map f fl)" by (simp add: last_map)
    also have "\<dots> = (if L mod B = 0 then B else L mod B)"
    proof (cases "L mod B = 0")
      case True
      then have "0 < L div B" using L by (intro div_pos_of_mod0)
      with True show ?thesis unfolding fl by simp
    next
      case False then show ?thesis unfolding fl by simp
    qed
    finally show "f (last fl) = (if L mod B = 0 then B else L mod B)" .
  qed
qed




text \<open>
  Claim C1.  On a connected client whose backend fails no call, \<open>insertCrossReferences\<close>
  over a file with \<open>L\<close> row tuples returns \<open>L\<close> and issues \<open>ceil (L / 100)\<close> flush
  statements; every flush but the last has exactly 100 row-value groups; the last has
  \<open>L mod 100\<close> groups, or 100 when 100 divides \<open>L\<close> and \<open>L > 0\<close>; and the parameters
  of all flushes together number \<open>L * 8\<close>.
\<close>

theorem insertCrossReferences_flushes:
  assumes "connected c" and "faults c = {}"
  shows "(let L = (\<Sum>r\<leftarrow>refs. length (ref_to_verse r));
              run = insertCrossReferences (Some refs) c;
              fl = cross_reference_flushes (new_calls c (snd run))
          in fst run = Inr L \<and>
             length fl = (L + 99) div 100 \<and>
             (\<forall>k. Suc k < length fl \<longrightarrow> length (fst (fl ! k)) = 100) \<and>
             (0 < L \<longrightarrow> length (fst (last fl)) = (if L mod 100 = 0 then 100 else L mod 100)) \<and>
             (\<Sum>x\<leftarrow>fl. length (snd x)) = L * 8)"
proof -
  define L where "L = length (rows_of refs)"
  define fl where "fl = cross_reference_flushes (new_calls c (snd (insertCrossReferences (Some refs) c)))"
  note ok = insertCrossReferences_ok[OF assms, of refs, folded L_def fl_def]
  have B: "0 < batchSize" by (simp add: batchSize_def)
  note facts = batch_sizes_facts[OF B ok(4)]
  have "(\<Sum>x\<leftarrow>fl. length (snd x)) = 8 * batchSize * (L div batchSize) + 8 * (L mod batchSize)"
    unfolding ok(5) by (simp add: sum_list_replicate)
  also have "\<dots> = L * 8" by (rule sum_parts)
  finally have tot: "(\<Sum>x\<leftarrow>fl. length (snd x)) = L * 8" .
  have n: "L + 100 - 1 = L + 99" by simp
  note facts' = facts[unfolded batchSize_def n]
  have "fst (insertCrossReferences (Some refs) c) = Inr L \<and>
             length fl = (L + 99) div 100 \<and>
             (\<forall>k. Suc k < length fl \<longrightarrow> length (fst (fl ! k)) = 100) \<and>
             (0 < L \<longrightarrow> length (fst (last fl)) = (if L mod 100 = 0 then 100 else L mod 100)) \<and>
             (\<Sum>x\<leftarrow>fl. length (snd x)) = L * 8"
    using ok(1) facts' tot by blast
  then show ?thesis
    unfolding Let_def length_rows_of[symmetric] L_def[symmetric] fl_def[symmetric] .
qed

theorem insertCrossReferences_flushes_witness:
  "connected connected_client \<and> faults connected_client = {} \<and>
   fst (insertCrossReferences (Some [example_ref]) connected_client) = Inr 101 \<and>
   length (cross_reference_flushes (new_calls connected_client
             (snd (insertCrossReferences (Some [example_ref]) connected_client)))) = 2 \<and>
   length (fst (last (cross_reference_flushes (new_calls connected_client
             (snd (insertCrossReferences (Some [example_ref]) connected_client)))))) = 1"
proof -
  have h1: "connected connected_client"
    by (simp add: connected_client_def connect_def new_Client_def Let_def)
  have h2: "faults connected_client = {}"
    by (simp add: connected_client_def connect_def new_Client_def Let_def)
  have L: "(\<Sum>r\<leftarrow>[example_ref]. length (ref_to_verse r)) = 101"
    by (simp add: example_ref_def)
  show ?thesis
    using h1 h2 insertCrossReferences_flushes[OF h1 h2, of "[example_ref]"]
    unfolding Let_def L by simp
qed

section \<open>Rules for awaited sequences and the loops\<close>

lemma post_await:
  assumes "post Q E m" and "\<And>x c. Q x c \<Longrightarrow> post R E (f x c)"
  shows "post R E (await m f)"
proof (cases m)
  case (Pair r c)
  show ?thesis
  proof (cases r)
    case (Inl e)
    with Pair assms(1) show ?thesis by (simp add: post_def await_def)
  next
    case (Inr x)
    with Pair assms(1) have "Q x c" by (simp add: post_def)
    from assms(2)[OF this] Pair Inr show ?thesis by (simp add: await_def)
  qed
qed

lemma post_weaken:
  assumes "post Q E m" and "\<And>x c. Q x c \<Longrightarrow> Q' x c" and "\<And>e c. E e c \<Longrightarrow> E' e c"
  shows "post Q' E' m"
  using assms by (auto simp: post_def split: prod.splits sum.splits)

lemma post_Inr: "Q x c \<Longrightarrow> post Q E (Inr x, c)"
  by (simp add: post_def)

lemma post_Inl: "E e c \<Longrightarrow> post Q E (Inl e, c)"
  by (simp add: post_def)

lemma post_snd: "post (\<lambda>x. I) (\<lambda>e. I) m = I (snd m)"
  by (auto simp: post_def split: prod.splits sum.splits)

lemma normalizeText_direct_eq: "normalizeText_direct nfkd t = Inr (normalized nfkd t)"
  by (cases t) (simp_all add: normalizeText_direct_def normalized_def)

lemma verses_loop_acc:
  "vb_values b = map (group_at 3) [0..<n] \<Longrightarrow> vb_paramIndex b = 3 * n + 1 \<Longrightarrow>
   verses_loop nfkd chapterId vs b totalVerses =
     Inr (\<lparr>vb_values = map (group_at 3) [0..<n + length vs],
           vb_params = vb_params b @ concat (map (verse_row_params nfkd chapterId) vs),
           vb_paramIndex = 3 * (n + length vs) + 1\<rparr>, totalVerses + length vs)"
proof (induction vs arbitrary: b n totalVerses)
  case Nil
  then show ?case by simp
next
  case (Cons v vs)
  let ?b1 = "\<lparr>vb_values = vb_values b @ [[vb_paramIndex b, vb_paramIndex b + 1, vb_paramIndex b + 2]],
             vb_params = vb_params b @
               [PNum chapterId, PNum (verse_verse v), PStr (normalized nfkd (verse_text v))],
             vb_paramIndex = vb_paramIndex b + 3\<rparr>"
  have g: "group_at 3 n = [3 * n + 1, 3 * n + 2, 3 * n + 3]"
    by (simp add: group_at_def upt_rec)
  have v1: "vb_values ?b1 = map (group_at 3) [0..<Suc n]"
    using Cons.prems by (simp add: g)
  have p1: "vb_paramIndex ?b1 = 3 * Suc n + 1"
    using Cons.prems by simp
  show ?case
    using Cons.IH[OF v1 p1, of "totalVerses + 1"]
    by (simp add: normalizeText_direct_eq Let_def verse_row_params_def)
qed

lemma verses_loop_new:
  "verses_loop nfkd chapterId vs new_verse_batch totalVerses =
     Inr (\<lparr>vb_values = map (group_at 3) [0..<length vs],
           vb_params = concat (map (verse_row_params nfkd chapterId) vs),
           vb_paramIndex = 3 * length vs + 1\<rparr>, totalVerses + length vs)"
  using verses_loop_acc[of new_verse_batch 0 nfkd chapterId vs totalVerses]
  by (simp add: new_verse_batch_def)

lemma chapters_loop_Cons:
  "chapters_loop nfkd bookId (ch # chs) totalVerses c =
     (case query (INSERT_chapter [PNum bookId, PNum (chapter_chapter ch)]) c of
        (Inl e, c1) \<Rightarrow> (Inl e, c1)
      | (Inr res, c1) \<Rightarrow>
          (case rows0_id res of
             Inl e \<Rightarrow> (Inl e, c1)
           | Inr chapterId \<Rightarrow>
               (case chapter_batch ch of
                  None \<Rightarrow> chapters_loop nfkd bookId chs totalVerses c1
                | Some vs \<Rightarrow>
                    (case query (verse_batch_stmt nfkd chapterId vs) c1 of
                       (Inl e, c2) \<Rightarrow> (Inl e, c2)
                     | (Inr res2, c2) \<Rightarrow>
                         chapters_loop nfkd bookId chs (totalVerses + length vs) c2))))"
  by (auto simp: chapter_batch_def verses_loop_new verse_batch_stmt_def
           split: prod.splits sum.splits option.splits)

lemma chapters_loop_post:
  assumes step: "\<And>s c. J c \<Longrightarrow> loop_stmt s \<Longrightarrow> post (\<lambda>r. J) E (query s c)"
    and terr: "\<And>c. J c \<Longrightarrow> E TypeError c"
  shows "J c \<Longrightarrow> post (\<lambda>r. J) E (chapters_loop nfkd bookId chs totalVerses c)"
proof (induction chs arbitrary: totalVerses c)
  case Nil
  then show ?case by (simp add: post_def)
next
  case (Cons ch chs)
  have q1: "post (\<lambda>r. J) E (query (INSERT_chapter [PNum bookId, PNum (chapter_chapter ch)]) c)"
    using Cons.prems by (intro step) (simp_all add: loop_stmt_def)
  show ?case
  proof (cases "query (INSERT_chapter [PNum bookId, PNum (chapter_chapter ch)]) c")
    case (Pair r c1)
    show ?thesis
    proof (cases r)
      case (Inl e)
      with Pair q1 show ?thesis by (simp add: chapters_loop_Cons post_def del: chapters_loop.simps)
    next
      case (Inr res)
      with Pair q1 have J1: "J c1" by (simp add: post_def)
      show ?thesis
      proof (cases "rows0_id res")
        case (Inl e)
        then have "e = TypeError" by (cases res) simp_all
        with Pair Inr Inl terr[OF J1] show ?thesis
          by (simp add: chapters_loop_Cons post_def del: chapters_loop.simps)
      next
        case id: (Inr chapterId)
        show ?thesis
        proof (cases "chapter_batch ch")
          case None
          with Pair Inr id Cons.IH[OF J1] show ?thesis
            by (simp add: chapters_loop_Cons del: chapters_loop.simps)
        next
          case (Some vs)
          then have ne: "vs \<noteq> []"
            by (auto simp: chapter_batch_def split: option.splits if_splits)
          have "loop_stmt (verse_batch_stmt nfkd chapterId vs)"
            unfolding loop_stmt_def using ne by blast
          then have q2: "post (\<lambda>r. J) E (query (verse_batch_stmt nfkd chapterId vs) c1)"
            using J1 by (intro step)
          show ?thesis
          proof (cases "query (verse_batch_stmt nfkd chapterId vs) c1")
            case p2: (Pair r2 c2)
            show ?thesis
            proof (cases r2)
              case (Inl e)
              with Pair Inr id Some p2 q2 show ?thesis
                by (simp add: chapters_loop_Cons post_def del: chapters_loop.simps)
            next
              case i2: (Inr res2)
              with p2 q2 have "J c2" by (simp add: post_def)
              from Cons.IH[OF this] Pair Inr id Some p2 i2 show ?thesis
                by (simp add: chapters_loop_Cons del: chapters_loop.simps)
            qed
          qed
        qed
      qed
    qed
  qed
qed

lemma books_loop_post:
  assumes step: "\<And>s c. J c \<Longrightarrow> loop_stmt s \<Longrightarrow> post (\<lambda>r. J) E (query s c)"
    and terr: "\<And>c. J c \<Longrightarrow> E TypeError c"
  shows "J c \<Longrightarrow> post (\<lambda>r. J) E (books_loop nfkd translationId bs bookIndex totalVerses c)"
proof (induction bs arbitrary: bookIndex totalVerses c)
  case Nil
  then show ?case by (simp add: post_def)
next
  case (Cons b bs)
  let ?s = "INSERT_book [PNum translationId, PStr (book_name b), PNum (int bookIndex + 1)]"
  have q1: "post (\<lambda>r. J) E (query ?s c)"
    using Cons.prems by (intro step) (simp_all add: loop_stmt_def)
  show ?case
  proof (cases "query ?s c")
    case (Pair r c1)
    show ?thesis
    proof (cases r)
      case (Inl e)
      with Pair q1 show ?thesis by (simp add: post_def)
    next
      case (Inr res)
      with Pair q1 have J1: "J c1" by (simp add: post_def)
      show ?thesis
      proof (cases "rows0_id res")
        case (Inl e)
        then have "e = TypeError" by (cases res) simp_all
        with Pair Inr Inl terr[OF J1] show ?thesis by (simp add: post_def)
      next
        case id: (Inr bookId)
        have q2: "post (\<lambda>r. J) E (chapters_loop nfkd bookId (book_chapters b) totalVerses c1)"
          by (rule chapters_loop_post[where J = J and E = E]) (auto intro: step terr J1)
        show ?thesis
        proof (cases "chapters_loop nfkd bookId (book_chapters b) totalVerses c1")
          case p2: (Pair r2 c2)
          show ?thesis
          proof (cases r2)
            case (Inl e)
            with Pair Inr id p2 q2 show ?thesis by (simp add: post_def)
          next
            case i2: (Inr tv1)
            with p2 q2 have "J c2" by (simp add: post_def)
            from Cons.IH[OF this] Pair Inr id p2 i2 show ?thesis by simp
          qed
        qed
      qed
    qed
  qed
qed

lemma rows_loop_post:
  assumes step: "\<And>ys c. J c \<Longrightarrow> ys \<noteq> [] \<Longrightarrow> post (\<lambda>r. J) E (query (batch_stmt ys) c)"
  shows "J c \<Longrightarrow> pending ps w \<Longrightarrow>
         post (\<lambda>w' c'. J c' \<and> (\<exists>ps'. pending ps' w')) E (rows_loop xs w c)"
proof (induction xs arbitrary: ps w c)
  case Nil
  then show ?case by (auto simp: post_def)
next
  case (Cons x xs)
  obtain r tv where x: "x = (r, tv)" by (cases x)
  let ?w1 = "push_row r tv w"
  let ?ps1 = "ps @ [(r, tv)]"
  have p1: "pending ?ps1 ?w1" using Cons.prems(2) by (rule pending_push)
  show ?case
  proof (cases "batchSize \<le> length (w_values ?w1)")
    case False
    with Cons.IH[OF Cons.prems(1) p1] show ?thesis by (simp add: x Let_def)
  next
    case True
    let ?w2 = "?w1\<lparr>w_values := [], w_params := [], w_paramIndex := 1\<rparr>"
    have q: "post (\<lambda>r. J) E (query (batch_stmt ?ps1) c)"
      using Cons.prems(1) by (intro step) simp_all
    show ?thesis
    proof (cases "query (batch_stmt ?ps1) c")
      case (Pair res c1)
      show ?thesis
      proof (cases res)
        case (Inl e)
        with Pair q True pending_stmt[OF p1] show ?thesis
          by (simp add: x Let_def post_def)
      next
        case (Inr ids)
        with Pair q have "J c1" by (simp add: post_def)
        from Cons.IH[OF this pending_reset, of ?w1] Pair Inr True pending_stmt[OF p1]
        show ?thesis by (simp add: x Let_def)
      qed
    qed
  qed
qed

lemma insertCrossReferences_post:
  assumes step: "\<And>ys c. J c \<Longrightarrow> ys \<noteq> [] \<Longrightarrow> post (\<lambda>r. J) E (query (batch_stmt ys) c)"
    and lerr: "\<And>c. J c \<Longrightarrow> E LoadError c"
    and J: "J c"
  shows "post (\<lambda>n. J) E (insertCrossReferences jsonFile c)"
proof (cases jsonFile)
  case None
  with lerr[OF J] show ?thesis by (simp add: insertCrossReferences_def post_def)
next
  case (Some refs)
  have l: "post (\<lambda>w' c'. J c' \<and> (\<exists>ps'. pending ps' w')) E (rows_loop (rows_of refs) new_writer c)"
    by (rule rows_loop_post[where J = J and E = E and ps = "[]"])
       (auto intro: step J pending_new)
  show ?thesis
  proof (cases "rows_loop (rows_of refs) new_writer c")
    case (Pair r c1)
    show ?thesis
    proof (cases r)
      case (Inl e)
      with Pair l Some show ?thesis
        by (simp add: insertCrossReferences_def cross_references_loop_rows post_def)
    next
      case (Inr w)
      with Pair l obtain ps' where J1: "J c1" and p: "pending ps' w"
        by (auto simp: post_def)
      show ?thesis
      proof (cases "ps' = []")
        case True
        then have "length (w_values w) = 0" using pending_length[OF p] by simp
        with Pair Inr Some J1 show ?thesis
          by (simp add: insertCrossReferences_def cross_references_loop_rows post_def)
      next
        case False
        then have pos: "0 < length (w_values w)" using pending_length[OF p] by simp
        have q: "post (\<lambda>r. J) E (query (batch_stmt ps') c1)"
          using J1 False by (rule step)
        then have "post (\<lambda>n. J) E
           (case query (batch_stmt ps') c1 of
              (Inl e, c2) \<Rightarrow> (Inl e, c2) | (Inr res, c2) \<Rightarrow> (Inr (w_insertCount w), c2))"
          by (auto simp: post_def split: prod.splits sum.splits)
        with Pair Inr Some pos pending_stmt[OF p] show ?thesis
          by (simp add: insertCrossReferences_def cross_references_loop_rows)
      qed
    qed
  qed
qed





lemma connect_result:
  "connect c = (r, c') \<Longrightarrow>
     calls c' = calls c @ [Connect] \<and> faults c' = faults c \<and> committed c' = committed c \<and>
     working c' = working c \<and> seqs c' = seqs c \<and>
     (\<forall>e. r = Inl e \<longrightarrow> e = BackendError (length (calls c)) \<and> connected c' = connected c) \<and>
     (\<forall>u. r = Inr u \<longrightarrow> connected c')"
  by (auto simp: connect_def Let_def split: if_splits)

lemma end_client_result:
  "end_client c = (r, c') \<Longrightarrow>
     calls c' = calls c @ [End] \<and> faults c' = faults c \<and> committed c' = committed c \<and>
     seqs c' = seqs c \<and> working c' = None \<and> \<not> connected c' \<and>
     (\<forall>e. r = Inl e \<longrightarrow> e = BackendError (length (calls c)))"
  by (auto simp: end_client_def Let_def split: if_splits)

lemma post_rows0_id:
  assumes "E TypeError c" and "\<And>i. post Q E (f i)"
  shows "post Q E (case rows0_id res of Inl e \<Rightarrow> (Inl e, c) | Inr i \<Rightarrow> f i)"
  using assms by (cases res) (simp_all add: post_def)

lemma post_await_return:
  assumes "post (\<lambda>r. Q) E m"
  shows "post (\<lambda>n. Q) E (await m (\<lambda>r c. (Inr x, c)))"
  using assms by (auto simp: post_def await_def split: prod.splits sum.splits)

lemma direct_try_post_loop:
  assumes conn: "post (\<lambda>u. J0) E (connect c0)"
    and load: "\<And>c. src = None \<Longrightarrow> J0 c \<Longrightarrow> E LoadError c"
    and beg: "\<And>c. J0 c \<Longrightarrow> post (\<lambda>r. J1) E (query BEGIN c)"
    and create: "\<And>t c. J1 c \<Longrightarrow> post (\<lambda>r. J1) E (query (CREATE_TABLE_IF_NOT_EXISTS t) c)"
    and ins: "\<And>s c. src = Some s \<Longrightarrow> J1 c \<Longrightarrow>
                post (\<lambda>r c'. if r = [] then E TypeError c' else J2 (hd r) c') E
                  (query (INSERT_translation
                     [PStr translation, PStr (translationName s), PStr language,
                      PStr (licenseInfo s)]) c)"
    and loop: "\<And>s i c. src = Some s \<Longrightarrow> J2 i c \<Longrightarrow>
                 post (\<lambda>r. J3) E (books_loop nfkd i (data_books s) 0 0 c)"
    and commit: "\<And>c. J3 c \<Longrightarrow> post (\<lambda>r. Q) E (query COMMIT c)"
  shows "post (\<lambda>n. Q) E (direct_try nfkd src language translation c0)"
proof -
  have rows0: "\<And>res c f. (if res = [] then E TypeError c else J2 (hd res) c) \<Longrightarrow>
       (\<And>i. J2 i c \<Longrightarrow> post (\<lambda>n. Q) E (f i)) \<Longrightarrow>
       post (\<lambda>n. Q) E (case rows0_id res of Inl e \<Rightarrow> (Inl e, c) | Inr i \<Rightarrow> f i)"
    subgoal for res c f by (cases res) (simp_all add: post_def)
    done
  show ?thesis
    unfolding direct_try_def
    apply (rule post_await[OF conn])
    apply (cases src)
     apply (simp add: post_Inl load)
    apply (simp only: option.case)
    apply (rule post_await[where Q = "\<lambda>r. J1"], erule beg)
    apply (rule post_await[where Q = "\<lambda>r. J1"], erule create)
    apply (rule post_await[where Q = "\<lambda>r. J1"], erule create)
    apply (rule post_await[where Q = "\<lambda>r. J1"], erule create)
    apply (rule post_await[where Q = "\<lambda>r. J1"], erule create)
    apply (rule post_await[where Q = "\<lambda>r c'. if r = [] then E TypeError c' else J2 (hd r) c'"],
           erule (1) ins)
    apply (erule rows0)
    apply (rule post_await[where Q = "\<lambda>r. J3"], erule (1) loop)
    apply (rule post_await_return, erule commit)
    done
qed

lemma direct_try_post:
  assumes conn: "post (\<lambda>u. J0) E (connect c0)"
    and load: "\<And>c. J0 c \<Longrightarrow> E LoadError c"
    and beg: "\<And>c. J0 c \<Longrightarrow> post (\<lambda>r. J1) E (query BEGIN c)"
    and step: "\<And>s c. J1 c \<Longrightarrow> data_stmt s \<Longrightarrow> post (\<lambda>r. J1) E (query s c)"
    and terr: "\<And>c. J1 c \<Longrightarrow> E TypeError c"
    and commit: "\<And>c. J1 c \<Longrightarrow> post (\<lambda>r. Q) E (query COMMIT c)"
  shows "post (\<lambda>n. Q) E (direct_try nfkd src language translation c0)"
proof (rule direct_try_post_loop[where ?J0.0 = J0 and ?J1.0 = J1 and ?J2.0 = "\<lambda>i. J1"
         and ?J3.0 = J1, OF conn load beg _ _ _ commit])
  fix t c assume "J1 c"
  then show "post (\<lambda>r. J1) E (query (CREATE_TABLE_IF_NOT_EXISTS t) c)"
    by (rule step) (simp add: data_stmt_def)
next
  fix s c assume "J1 c"
  then have "post (\<lambda>r. J1) E (query (INSERT_translation
                     [PStr translation, PStr (translationName s), PStr language,
                      PStr (licenseInfo s)]) c)"
    by (rule step) (simp add: data_stmt_def)
  then show "post (\<lambda>r c'. if r = [] then E TypeError c' else J1 c') E (query (INSERT_translation
                     [PStr translation, PStr (translationName s), PStr language,
                      PStr (licenseInfo s)]) c)"
    by (rule post_weaken) (simp_all add: terr)
next
  fix s i c assume "J1 c"
  then show "post (\<lambda>r. J1) E (books_loop nfkd i (data_books s) 0 0 c)"
    by (rule books_loop_post[where J = J1 and E = E, rotated 2])
       (auto intro: step terr simp: data_stmt_def)
qed


lemma verse_flushes_append: "verse_flushes (xs @ ys) = verse_flushes xs @ verse_flushes ys"
  by (simp add: verse_flushes_def)

lemma good_flush_groups:
  assumes "0 < n" "length ps = a * n"
  shows "good_flush a (map (group_at a) [0..<n], ps)"
  using assms
  by (simp add: good_flush_def sequentially_numbered_def list_all_iff length_group_at
                concat_group_at mult.commute)

lemma good_batch_stmt:
  "ys \<noteq> [] \<Longrightarrow> good_flush 8 (map (group_at 8) [0..<length ys], concat (map row_params ys))"
  by (rule good_flush_groups)
     (simp_all add: length_concat_uniform[of _ row_params 8] length_row_params)

lemma good_verse_batch_stmt:
  "vs \<noteq> [] \<Longrightarrow>
   good_flush 3 (map (group_at 3) [0..<length vs], concat (map (verse_row_params nfkd i) vs))"
  by (rule good_flush_groups)
     (simp_all add: length_concat_uniform[of _ "verse_row_params nfkd i" 3] verse_row_params_def)

lemma data_stmt_flushes:
  assumes "data_stmt s \<or> s = BEGIN \<or> s = COMMIT \<or> s = ROLLBACK"
  shows "list_all (good_flush 8) (cross_reference_flushes [Query s]) \<and>
         list_all (good_flush 3) (verse_flushes [Query s])"
  using assms good_batch_stmt good_verse_batch_stmt
  by (auto simp: data_stmt_def loop_stmt_def cross_reference_flushes_def verse_flushes_def
                 batch_stmt_def verse_batch_stmt_def)

lemma flushes_good_query:
  assumes "flushes_good base c" "data_stmt s \<or> s = BEGIN \<or> s = COMMIT \<or> s = ROLLBACK"
  shows "flushes_good base (snd (query s c))"
proof -
  obtain new where n: "calls c = base @ new"
    "list_all (good_flush 8) (cross_reference_flushes new)"
    "list_all (good_flush 3) (verse_flushes new)"
    using assms(1) unfolding flushes_good_def by blast
  have "calls (snd (query s c)) = base @ (new @ [Query s])"
    using n(1) by (simp add: query_calls)
  moreover have "list_all (good_flush 8) (cross_reference_flushes (new @ [Query s]))"
    "list_all (good_flush 3) (verse_flushes (new @ [Query s]))"
    using n(2,3) data_stmt_flushes[OF assms(2)]
    by (simp_all add: cross_reference_flushes_append verse_flushes_append)
  ultimately show ?thesis unfolding flushes_good_def by blast
qed

lemma flushes_good_refl: "flushes_good (calls c) c"
  by (simp add: flushes_good_def cross_reference_flushes_def verse_flushes_def)

lemma flushes_good_connect: "flushes_good base c \<Longrightarrow> flushes_good base (snd (connect c))"
  unfolding flushes_good_def
  by (auto simp: connect_def Let_def cross_reference_flushes_def verse_flushes_def)

lemma flushes_good_end: "flushes_good base c \<Longrightarrow> flushes_good base (snd (end_client c))"
  unfolding flushes_good_def
  by (auto simp: end_client_def Let_def cross_reference_flushes_def verse_flushes_def)

lemma flushes_good_insertCrossReferences:
  "flushes_good base c \<Longrightarrow> flushes_good base (snd (insertCrossReferences jsonFile c))"
  unfolding post_snd[symmetric, where I = "flushes_good base"]
  by (rule insertCrossReferences_post)
     (auto simp: post_snd data_stmt_def intro!: flushes_good_query)

lemma flushes_good_direct_try:
  "flushes_good base c \<Longrightarrow>
   flushes_good base (snd (direct_try nfkd src language translation c))"
  unfolding post_snd[symmetric, where I = "flushes_good base"]
  by (rule direct_try_post[where ?J0.0 = "flushes_good base" and ?J1.0 = "flushes_good base"])
     (auto simp: post_snd intro!: flushes_good_query flushes_good_connect)

lemma flushes_good_generatePostgreSQLDirect:
  "flushes_good [] (snd (generatePostgreSQLDirect nfkd src language translation T S F))"
proof -
  have "flushes_good [] (new_Client T S F)"
    by (simp add: flushes_good_def new_Client_def cross_reference_flushes_def verse_flushes_def)
  then have "flushes_good [] (snd (direct_try nfkd src language translation (new_Client T S F)))"
    by (rule flushes_good_direct_try)
  then show ?thesis
    by (auto simp: generatePostgreSQLDirect_def split: prod.splits sum.splits
             intro!: flushes_good_end flushes_good_query)
qed

lemma flushes_good_new_calls:
  assumes "flushes_good (calls c) c'"
  shows "list_all (good_flush 8) (cross_reference_flushes (new_calls c c'))"
    and "list_all (good_flush 3) (verse_flushes (new_calls c c'))"
  using assms unfolding flushes_good_def new_calls_def by auto










lemma verse_flush_sizes_query:
  "verse_flush_sizes (snd (query s c)) =
     verse_flush_sizes c @ map (\<lambda>fl. length (fst fl)) (verse_flush (Query s))"
  by (simp add: verse_flush_sizes_def query_calls verse_flushes_def)

lemma verse_flush_sizes_query_other:
  "\<forall>v p. s \<noteq> INSERT_verse v p \<Longrightarrow> verse_flush_sizes (snd (query s c)) = verse_flush_sizes c"
  by (cases s) (auto simp: verse_flush_sizes_query)

lemma query_no_verse_flush:
  assumes "verse_flush_sizes c = []" "\<forall>v p. s \<noteq> INSERT_verse v p"
    and "\<And>c'. verse_flush_sizes c' = [] \<Longrightarrow> E c'"
  shows "post (\<lambda>r c'. verse_flush_sizes c' = []) (\<lambda>e. E) (query s c)"
proof -
  have "verse_flush_sizes (snd (query s c)) = []"
    using assms(1,2) by (simp add: verse_flush_sizes_query_other)
  then show ?thesis
    using assms(3) by (cases "query s c") (auto simp: post_def split: sum.splits)
qed

lemma verse_flush_sizes_batch:
  "verse_flush_sizes (snd (query (verse_batch_stmt nfkd i vs) c)) =
     verse_flush_sizes c @ [length vs]"
  by (simp add: verse_flush_sizes_query verse_batch_stmt_def)

lemma chapter_batches_Cons:
  "chapter_batches (ch # chs) =
     (case chapter_batch ch of None \<Rightarrow> [] | Some vs \<Rightarrow> [vs]) @ chapter_batches chs"
  by (simp add: chapter_batches_def chapter_batch_def split: option.splits)

lemma chapters_loop_sizes:
  "verse_flush_sizes c = pre \<Longrightarrow>
   post (\<lambda>r c'. verse_flush_sizes c' = pre @ map length (chapter_batches chs))
        (\<lambda>e c'. prefix (verse_flush_sizes c') (pre @ map length (chapter_batches chs)))
        (chapters_loop nfkd bookId chs totalVerses c)"
proof (induction chs arbitrary: totalVerses c pre)
  case Nil
  then show ?case by (simp add: post_def chapter_batches_def)
next
  case (Cons ch chs)
  let ?q = "query (INSERT_chapter [PNum bookId, PNum (chapter_chapter ch)]) c"
  have s1: "verse_flush_sizes (snd ?q) = pre"
    using Cons.prems by (simp add: verse_flush_sizes_query_other)
  show ?case
  proof (cases ?q)
    case (Pair r c1)
    with s1 have c1: "verse_flush_sizes c1 = pre" by simp
    show ?thesis
    proof (cases r)
      case (Inl e)
      with Pair c1 show ?thesis
        by (simp add: chapters_loop_Cons post_def del: chapters_loop.simps)
    next
      case (Inr res)
      show ?thesis
      proof (cases "rows0_id res")
        case (Inl e)
        with Pair Inr c1 show ?thesis
          by (simp add: chapters_loop_Cons post_def del: chapters_loop.simps)
      next
        case id: (Inr chapterId)
        show ?thesis
        proof (cases "chapter_batch ch")
          case None
          with Pair Inr id Cons.IH[OF c1] show ?thesis
            by (simp add: chapters_loop_Cons chapter_batches_Cons del: chapters_loop.simps)
        next
          case (Some vs)
          let ?q2 = "query (verse_batch_stmt nfkd chapterId vs) c1"
          have s2: "verse_flush_sizes (snd ?q2) = pre @ [length vs]"
            using c1 by (simp add: verse_flush_sizes_batch)
          show ?thesis
          proof (cases ?q2)
            case p2: (Pair r2 c2)
            with s2 have c2: "verse_flush_sizes c2 = pre @ [length vs]" by simp
            show ?thesis
            proof (cases r2)
              case (Inl e)
              with Pair Inr id Some p2 c2 show ?thesis
                by (simp add: chapters_loop_Cons chapter_batches_Cons post_def
                         del: chapters_loop.simps)
            next
              case i2: (Inr res2)
              from Cons.IH[OF c2] Pair Inr id Some p2 i2 show ?thesis
                by (simp add: chapters_loop_Cons chapter_batches_Cons del: chapters_loop.simps)
            qed
          qed
        qed
      qed
    qed
  qed
qed

lemma books_loop_sizes:
  "verse_flush_sizes c = pre \<Longrightarrow>
   post (\<lambda>r c'. verse_flush_sizes c' = pre @ map length (verse_batches bs))
        (\<lambda>e c'. prefix (verse_flush_sizes c') (pre @ map length (verse_batches bs)))
        (books_loop nfkd translationId bs bookIndex totalVerses c)"
proof (induction bs arbitrary: bookIndex totalVerses c pre)
  case Nil
  then show ?case by (simp add: post_def verse_batches_def)
next
  case (Cons b bs)
  let ?q = "query (INSERT_book [PNum translationId, PStr (book_name b), PNum (int bookIndex + 1)]) c"
  have vb: "verse_batches (b # bs) = chapter_batches (book_chapters b) @ verse_batches bs"
    by (simp add: verse_batches_def)
  have s1: "verse_flush_sizes (snd ?q) = pre"
    using Cons.prems by (simp add: verse_flush_sizes_query_other)
  show ?case
  proof (cases ?q)
    case (Pair r c1)
    with s1 have c1: "verse_flush_sizes c1 = pre" by simp
    show ?thesis
    proof (cases r)
      case (Inl e)
      with Pair c1 show ?thesis by (simp add: post_def)
    next
      case (Inr res)
      show ?thesis
      proof (cases "rows0_id res")
        case (Inl e)
        with Pair Inr c1 show ?thesis by (simp add: post_def)
      next
        case id: (Inr bookId)
        note l = chapters_loop_sizes[OF c1, of "book_chapters b" nfkd bookId totalVerses]
        show ?thesis
        proof (cases "chapters_loop nfkd bookId (book_chapters b) totalVerses c1")
          case p2: (Pair r2 c2)
          show ?thesis
          proof (cases r2)
            case (Inl e)
            with p2 l have "prefix (verse_flush_sizes c2)
                 (pre @ map length (chapter_batches (book_chapters b)))"
              by (simp add: post_def)
            then have "prefix (verse_flush_sizes c2)
                 ((pre @ map length (chapter_batches (book_chapters b))) @
                  map length (verse_batches bs))"
              by (rule prefix_prefix)
            with Pair Inr id p2 Inl show ?thesis by (simp add: post_def vb)
          next
            case i2: (Inr tv1)
            with p2 l have "verse_flush_sizes c2 = pre @ map length (chapter_batches (book_chapters b))"
              by (simp add: post_def)
            from Cons.IH[OF this] Pair Inr id p2 i2 show ?thesis by (simp add: vb)
          qed
        qed
      qed
    qed
  qed
qed

lemma direct_try_sizes:
  defines "Esz \<equiv> \<lambda>src c'. case src of None \<Rightarrow> verse_flush_sizes c' = []
                 | Some s \<Rightarrow> prefix (verse_flush_sizes c') (map length (verse_batches (data_books s)))"
  shows
  "post (\<lambda>n c'. \<exists>s. src = Some s \<and> verse_flush_sizes c' = map length (verse_batches (data_books s)))
        (\<lambda>e. Esz src)
        (direct_try nfkd src language translation (new_Client T S F))"
proof -
  have E0: "\<And>c'. verse_flush_sizes c' = [] \<Longrightarrow> Esz src c'"
    by (simp add: Esz_def split: option.splits)
  show ?thesis
  proof (rule direct_try_post_loop[where ?J0.0 = "\<lambda>c. verse_flush_sizes c = []"
         and ?J1.0 = "\<lambda>c. verse_flush_sizes c = []" and ?J2.0 = "\<lambda>i c. verse_flush_sizes c = []"
         and ?J3.0 = "\<lambda>c'. \<exists>s. src = Some s \<and>
                          verse_flush_sizes c' = map length (verse_batches (data_books s))"])
    show "post (\<lambda>u c. verse_flush_sizes c = []) (\<lambda>e. Esz src) (connect (new_Client T S F))"
      by (auto simp: post_def connect_def new_Client_def Let_def verse_flush_sizes_def
                     verse_flushes_def intro!: E0)
  next
    fix s i c assume "src = Some s" "verse_flush_sizes c = []"
    with books_loop_sizes[of c "[]" "data_books s" nfkd i 0 0]
    show "post (\<lambda>r c'. \<exists>s. src = Some s \<and>
                   verse_flush_sizes c' = map length (verse_batches (data_books s)))
          (\<lambda>e. Esz src) (books_loop nfkd i (data_books s) 0 0 c)"
      by (auto simp: post_def Esz_def split: prod.splits sum.splits)
  next
    fix c assume "verse_flush_sizes c = []"
    then show "Esz src c" by (rule E0)
  next
    fix c assume "verse_flush_sizes c = []"
    then show "post (\<lambda>r c. verse_flush_sizes c = []) (\<lambda>e. Esz src) (query BEGIN c)"
      by (rule query_no_verse_flush) (simp_all add: E0)
  next
    fix t c assume "verse_flush_sizes c = []"
    then show "post (\<lambda>r c. verse_flush_sizes c = []) (\<lambda>e. Esz src)
                 (query (CREATE_TABLE_IF_NOT_EXISTS t) c)"
      by (rule query_no_verse_flush) (simp_all add: E0)
  next
    fix s c assume "src = Some s" and c0: "verse_flush_sizes c = []"
    have "post (\<lambda>r c. verse_flush_sizes c = []) (\<lambda>e. Esz src)
                 (query (INSERT_translation
                     [PStr translation, PStr (translationName s), PStr language,
                      PStr (licenseInfo s)]) c)"
      using c0 by (rule query_no_verse_flush) (simp_all add: E0)
    then show "post (\<lambda>r c'. if r = [] then Esz src c' else verse_flush_sizes c' = [])
                 (\<lambda>e. Esz src)
                 (query (INSERT_translation
                     [PStr translation, PStr (translationName s), PStr language,
                      PStr (licenseInfo s)]) c)"
      by (rule post_weaken) (simp_all add: E0)
  next
    fix c assume "\<exists>s. src = Some s \<and>
                   verse_flush_sizes c = map length (verse_batches (data_books s))"
    then obtain s where s: "src = Some s"
      "verse_flush_sizes c = map length (verse_batches (data_books s))" by blast
    have "verse_flush_sizes (snd (query COMMIT c)) = verse_flush_sizes c"
      by (simp add: verse_flush_sizes_query_other)
    with s show "post (\<lambda>r c'. \<exists>s. src = Some s \<and>
                   verse_flush_sizes c' = map length (verse_batches (data_books s)))
                 (\<lambda>e. Esz src) (query COMMIT c)"
      by (cases "query COMMIT c") (auto simp: post_def Esz_def split: sum.splits)
  qed
qed

lemma post_conj:
  assumes "post Q1 E1 m" "post Q2 E2 m"
  shows "post (\<lambda>x c. Q1 x c \<and> Q2 x c) (\<lambda>e c. E1 e c \<and> E2 e c) m"
  using assms by (auto simp: post_def split: prod.splits sum.splits)

lemma post_fst_snd:
  "post Q E m \<Longrightarrow> (\<forall>x. fst m = Inr x \<longrightarrow> Q x (snd m)) \<and> (\<forall>e. fst m = Inl e \<longrightarrow> E e (snd m))"
  by (auto simp: post_def split: prod.splits sum.splits)












lemma generatePostgreSQLDirect_cases:
  obtains (failed) e c where
      "direct_try nfkd src language translation (new_Client T S F) = (Inl e, c)"
      "generatePostgreSQLDirect nfkd src language translation T S F =
         (Inl e, snd (end_client (snd (query ROLLBACK c))))"
  | (succeeded) n c where
      "direct_try nfkd src language translation (new_Client T S F) = (Inr n, c)"
      "generatePostgreSQLDirect nfkd src language translation T S F =
         (Inr (), snd (end_client c))"
proof (cases "direct_try nfkd src language translation (new_Client T S F)")
  case (Pair r c)
  show ?thesis
  proof (cases r)
    case (Inl e)
    with Pair show ?thesis by (intro failed[of e c]) (simp_all add: generatePostgreSQLDirect_def)
  next
    case (Inr n)
    with Pair show ?thesis by (intro succeeded[of n c]) (simp_all add: generatePostgreSQLDirect_def)
  qed
qed

lemma calls_end_client: "calls (snd (end_client c)) = calls c @ [End]"
  by (simp add: end_client_def Let_def)

lemma committed_end_client: "committed (snd (end_client c)) = committed c"
  by (simp add: end_client_def Let_def)


section \<open>The transaction coordinator\<close>




section \<open>The flushes of the two writers\<close>

lemma good_flush_numbered: "list_all (good_flush a) fls \<Longrightarrow> list_all (sequentially_numbered a) fls"
  by (simp add: list_all_iff good_flush_def)

lemma good_flush_nonempty: "list_all (good_flush a) fls \<Longrightarrow> list_all (\<lambda>fl. fst fl \<noteq> []) fls"
  by (simp add: list_all_iff good_flush_def)

lemma generatePostgreSQLDirect_verse_flushes:
  "list_all (good_flush 3)
     (verse_flushes (calls (snd (generatePostgreSQLDirect nfkd src language translation T S F))))"
  using flushes_good_generatePostgreSQLDirect[of nfkd src language translation T S F]
  by (auto simp: flushes_good_def)

lemma insertCrossReferences_flushes_good:
  "list_all (good_flush 8)
     (cross_reference_flushes (new_calls c (snd (insertCrossReferences jsonFile c))))"
  by (rule flushes_good_new_calls)
     (rule flushes_good_insertCrossReferences[OF flushes_good_refl])

lemma verse_flush_sizes_end: "verse_flush_sizes (snd (end_client c)) = verse_flush_sizes c"
  by (simp add: verse_flush_sizes_def calls_end_client verse_flushes_def)

lemma generatePostgreSQLDirect_sizes:
  "prefix (verse_flush_sizes (snd (generatePostgreSQLDirect nfkd src language translation T S F)))
     (case src of None \<Rightarrow> [] | Some s \<Rightarrow> map length (verse_batches (data_books s)))"
proof (cases rule: generatePostgreSQLDirect_cases[of nfkd src language translation T S F])
  case (failed e c)
  from direct_try_sizes[of src nfkd language translation T S F] failed(1)
  have "case src of None \<Rightarrow> verse_flush_sizes c = []
        | Some s \<Rightarrow> prefix (verse_flush_sizes c) (map length (verse_batches (data_books s)))"
    by (simp add: post_def)
  then show ?thesis
    unfolding failed(2)
    by (simp add: verse_flush_sizes_end verse_flush_sizes_query_other split: option.splits)
next
  case (succeeded n c)
  from direct_try_sizes[of src nfkd language translation T S F] succeeded(1)
  have "\<exists>s. src = Some s \<and> verse_flush_sizes c = map length (verse_batches (data_books s))"
    by (simp add: post_def)
  then show ?thesis
    unfolding succeeded(2) by (auto simp: verse_flush_sizes_end)
qed

lemma insertCrossReferences_no_rows:
  assumes "(\<Sum>r\<leftarrow>refs. length (ref_to_verse r)) = 0"
  shows "insertCrossReferences (Some refs) c = (Inr 0, c)"
proof -
  have "rows_of refs = []" using assms by (simp add: length_rows_of[symmetric])
  then show ?thesis
    by (simp add: insertCrossReferences_def cross_references_loop_rows new_writer_def)
qed

text \<open>
  Claim C3.  Every flush of \<open>insertCrossReferences\<close> and every verse flush of
  \<open>generatePostgreSQLDirect\<close>, whatever the input and whichever calls fail, is
  numbered from 1: with \<open>N\<close> row-value groups of the table's arity (8 and 3), each
  group has one placeholder per column, the placeholders read in order are
  \<open>$1, ..., $(N * arity)\<close>, and the parameter list has \<open>N * arity\<close> entries.  The
  numbering starts again at 1 in each flush.
\<close>

theorem placeholders_numbered_from_1:
  "list_all (sequentially_numbered 8)
     (cross_reference_flushes (new_calls c (snd (insertCrossReferences jsonFile c)))) \<and>
   list_all (sequentially_numbered 3)
     (verse_flushes (calls (snd (generatePostgreSQLDirect nfkd src language translation T S F))))"
proof
  show "list_all (sequentially_numbered 8)
     (cross_reference_flushes (new_calls c (snd (insertCrossReferences jsonFile c))))"
    using insertCrossReferences_flushes_good by (rule good_flush_numbered)
  show "list_all (sequentially_numbered 3)
     (verse_flushes (calls (snd (generatePostgreSQLDirect nfkd src language translation T S F))))"
    using generatePostgreSQLDirect_verse_flushes by (rule good_flush_numbered)
qed

theorem placeholders_numbered_from_1_witness:
  "list_all (sequentially_numbered 8)
     (cross_reference_flushes (new_calls connected_client
        (snd (insertCrossReferences (Some [example_ref]) connected_client)))) \<and>
   list_all (sequentially_numbered 3)
     (verse_flushes (calls (snd (example_import empty_tables fresh_seqs {})))) \<and>
   length (cross_reference_flushes (new_calls connected_client
        (snd (insertCrossReferences (Some [example_ref]) connected_client)))) = 2 \<and>
   map fst (verse_flushes (calls (snd (example_import empty_tables fresh_seqs {})))) =
     [[[1, 2, 3], [4, 5, 6], [7, 8, 9]], [[1, 2, 3], [4, 5, 6], [7, 8, 9]]]"
proof -
  have h1: "connected connected_client"
    by (simp add: connected_client_def connect_def new_Client_def Let_def)
  have h2: "faults connected_client = {}"
    by (simp add: connected_client_def connect_def new_Client_def Let_def)
  have L: "length (rows_of [example_ref]) = 101"
    by (simp add: length_rows_of example_ref_def)
  have "length (map (\<lambda>x. length (fst x)) (cross_reference_flushes (new_calls connected_client
        (snd (insertCrossReferences (Some [example_ref]) connected_client))))) = 2"
    unfolding insertCrossReferences_ok(4)[OF h1 h2, of "[example_ref]"] L
    by (simp add: batchSize_def)
  then have a: "length (cross_reference_flushes (new_calls connected_client
        (snd (insertCrossReferences (Some [example_ref]) connected_client)))) = 2"
    by simp
  have b: "map fst (verse_flushes (calls (snd (example_import empty_tables fresh_seqs {})))) =
     [[[1, 2, 3], [4, 5, 6], [7, 8, 9]], [[1, 2, 3], [4, 5, 6], [7, 8, 9]]]"
    by code_simp
  from placeholders_numbered_from_1[where c = connected_client and jsonFile = "Some [example_ref]"
         and nfkd = "\<lambda>s. s" and src = "Some example_source" and language = "[0x65, 0x6E]"
         and translation = "[0x4B]" and T = empty_tables and S = fresh_seqs and F = "{}"]
  show ?thesis using a b by (simp add: example_import_def)
qed

text \<open>
  Claim C9.  No flush of either writer has zero row-value groups, whatever the input
  and whichever calls fail.  A reference file with no row tuples makes
  \<open>insertCrossReferences\<close> issue nothing at all; and the verse flushes of
  \<open>generatePostgreSQLDirect\<close> are, in order and in size, the non-empty verse arrays
  of the document (all of them, or the first few when the run fails): a chapter
  without verses has no insert.
\<close>

theorem no_empty_insert:
  "list_all (\<lambda>fl. fst fl \<noteq> [])
     (cross_reference_flushes (new_calls c (snd (insertCrossReferences jsonFile c)))) \<and>
   list_all (\<lambda>fl. fst fl \<noteq> [])
     (verse_flushes (calls (snd (generatePostgreSQLDirect nfkd src language translation T S F)))) \<and>
   ((\<Sum>r\<leftarrow>refs. length (ref_to_verse r)) = 0 \<longrightarrow>
      new_calls c (snd (insertCrossReferences (Some refs) c)) = []) \<and>
   prefix (verse_flush_sizes (snd (generatePostgreSQLDirect nfkd src language translation T S F)))
     (case src of None \<Rightarrow> [] | Some s \<Rightarrow> map length (verse_batches (data_books s)))"
proof (intro conjI)
  show "list_all (\<lambda>fl. fst fl \<noteq> [])
     (cross_reference_flushes (new_calls c (snd (insertCrossReferences jsonFile c))))"
    using insertCrossReferences_flushes_good by (rule good_flush_nonempty)
  show "list_all (\<lambda>fl. fst fl \<noteq> [])
     (verse_flushes (calls (snd (generatePostgreSQLDirect nfkd src language translation T S F))))"
    using generatePostgreSQLDirect_verse_flushes by (rule good_flush_nonempty)
  show "(\<Sum>r\<leftarrow>refs. length (ref_to_verse r)) = 0 \<longrightarrow>
      new_calls c (snd (insertCrossReferences (Some refs) c)) = []"
    by (simp add: insertCrossReferences_no_rows new_calls_def)
  show "prefix (verse_flush_sizes (snd (generatePostgreSQLDirect nfkd src language translation T S F)))
     (case src of None \<Rightarrow> [] | Some s \<Rightarrow> map length (verse_batches (data_books s)))"
    by (rule generatePostgreSQLDirect_sizes)
qed

theorem no_empty_insert_witness:
  "new_calls connected_client
     (snd (insertCrossReferences (Some [example_ref\<lparr>ref_to_verse := []\<rparr>]) connected_client)) = [] \<and>
   verse_flushes (calls (snd (generatePostgreSQLDirect (\<lambda>s. s) (Some empty_chapters_source)
      [0x65, 0x6E] [0x4B] empty_tables fresh_seqs {}))) = [] \<and>
   length (calls (snd (generatePostgreSQLDirect (\<lambda>s. s) (Some empty_chapters_source)
      [0x65, 0x6E] [0x4B] empty_tables fresh_seqs {}))) = 12"
proof -
  have s: "(\<Sum>r\<leftarrow>[example_ref\<lparr>ref_to_verse := []\<rparr>]. length (ref_to_verse r)) = 0"
    by simp
  have b: "verse_batches (data_books empty_chapters_source) = []"
    by (simp add: empty_chapters_source_def verse_batches_def chapter_batches_def)
  have l: "length (calls (snd (generatePostgreSQLDirect (\<lambda>s. s) (Some empty_chapters_source)
      [0x65, 0x6E] [0x4B] empty_tables fresh_seqs {}))) = 12"
    by code_simp
  from no_empty_insert[where c = connected_client
         and refs = "[example_ref\<lparr>ref_to_verse := []\<rparr>]"
         and nfkd = "\<lambda>s. s" and src = "Some empty_chapters_source" and language = "[0x65, 0x6E]"
         and translation = "[0x4B]" and T = empty_tables and S = fresh_seqs and F = "{}"]
  show ?thesis using s b l by (simp add: verse_flush_sizes_def)
qed

section \<open>The annotation importer's transaction\<close>





section \<open>Releasing the connection\<close>

text \<open>
  The primary importer calls \<open>client.end()\<close> last on every path, and its outcome does
  not depend on what that call does.
\<close>

lemma generatePostgreSQLDirect_releases:
  "last (calls (snd (generatePostgreSQLDirect nfkd src language translation T S F))) = End"
  by (cases rule: generatePostgreSQLDirect_cases[of nfkd src language translation T S F])
     (simp_all add: calls_end_client)

text \<open>
  Claim C7 for the annotation importer, at two runs over one file with two row tuples.
  When the flush (call 7) fails, the \<open>catch\<close> block sends \<open>ROLLBACK\<close> and exits the
  process: \<open>client.end()\<close> is never called.  When only \<open>client.end()\<close> (call 9) fails,
  after the \<open>COMMIT\<close> has stored the two rows, the run is rejected with the error of
  \<open>client.end()\<close>.
\<close>

theorem main_execute_skips_release:
  "fst (main_execute True [two_targets] empty_tables fresh_seqs {7}) = Exited 1 \<and>
   End \<notin> set (calls (snd (main_execute True [two_targets] empty_tables fresh_seqs {7}))) \<and>
   last (calls (snd (main_execute True [two_targets] empty_tables fresh_seqs {7}))) = Query ROLLBACK \<and>
   fst (main_execute True [two_targets] empty_tables fresh_seqs {9}) = Rejected (BackendError 9) \<and>
   last (calls (snd (main_execute True [two_targets] empty_tables fresh_seqs {9}))) = End \<and>
   length (cross_references_tbl
      (committed (snd (main_execute True [two_targets] empty_tables fresh_seqs {9})))) = 2"
  by code_simp

section \<open>The primary importer when no call fails\<close>

lemma rows_from_verses:
  "rows_from verse_of_params i (map (verse_row_params nfkd chapterId) vs) =
     Some (verse_rows nfkd chapterId i vs)"
  by (induction vs arbitrary: i) (simp_all add: verse_row_params_def)

lemma length_verse_rows: "length (verse_rows nfkd chapterId i vs) = length vs"
  by (induction vs arbitrary: i) simp_all

lemma exec_verse_batch_stmt:
  assumes "vs \<noteq> []"
  shows "exec (verse_batch_stmt nfkd chapterId vs) T S =
           Some (fst (add_verses nfkd chapterId vs (T, S)),
                 snd (add_verses nfkd chapterId vs (T, S)), [])"
proof -
  have len: "\<forall>v\<in>set vs. length (verse_row_params nfkd chapterId v) = 3"
    by (simp add: verse_row_params_def)
  have "placeholders_ok (map (group_at 3) [0..<length vs])
          (concat (map (verse_row_params nfkd chapterId) vs))"
    using assms by (intro placeholders_ok_groups) (simp_all add: length_concat_uniform[OF len])
  then show ?thesis
    by (simp add: verse_batch_stmt_def bind_groups[OF len] rows_from_verses add_verses_def
                  length_verse_rows del: map_map)
qed

lemma query_in_txn:
  assumes "in_txn T0 (W, S) c" "exec s W S = Some (W', S', ids)"
    "s \<noteq> BEGIN" "s \<noteq> COMMIT" "s \<noteq> ROLLBACK"
  shows "\<exists>c'. query s c = (Inr ids, c') \<and> in_txn T0 (W', S') c'"
  using assms by (cases s) (auto simp: in_txn_def query_def Let_def)

lemma chapters_loop_effect:
  "in_txn T0 WS c \<Longrightarrow>
   post (\<lambda>n. in_txn T0 (chapters_effect nfkd bookId chs WS)) (\<lambda>e c'. False)
     (chapters_loop nfkd bookId chs totalVerses c)"
proof (induction chs arbitrary: WS c totalVerses)
  case Nil
  then show ?case by (simp add: post_def)
next
  case (Cons ch chs)
  obtain W S where WS: "WS = (W, S)" by (cases WS)
  let ?s = "INSERT_chapter [PNum bookId, PNum (chapter_chapter ch)]"
  let ?WS1 = "add_chapter bookId (chapter_chapter ch) (W, S)"
  have e1: "exec ?s W S = Some (fst ?WS1, snd ?WS1, [chapter_id_seq S])"
    by (simp add: add_chapter_def)
  from query_in_txn[OF Cons.prems[unfolded WS] e1]
  obtain c1 where q1: "query ?s c = (Inr [chapter_id_seq S], c1)" and t1: "in_txn T0 ?WS1 c1"
    by auto
  show ?case
  proof (cases "chapter_batch ch")
    case None
    from Cons.IH[OF t1] q1 None show ?thesis
      by (simp add: chapters_loop_Cons WS del: chapters_loop.simps)
  next
    case (Some vs)
    then have ne: "vs \<noteq> []"
      by (auto simp: chapter_batch_def split: option.splits if_splits)
    let ?WS2 = "add_verses nfkd (chapter_id_seq S) vs ?WS1"
    have t1': "in_txn T0 (fst ?WS1, snd ?WS1) c1" using t1 by simp
    from query_in_txn[OF t1' exec_verse_batch_stmt[OF ne, of nfkd "chapter_id_seq S"]]
    obtain c2 where q2: "query (verse_batch_stmt nfkd (chapter_id_seq S) vs) c1 = (Inr [], c2)"
      and t2: "in_txn T0 ?WS2 c2"
      by (auto simp: verse_batch_stmt_def)
    from Cons.IH[OF t2] q1 q2 Some show ?thesis
      by (simp add: chapters_loop_Cons WS del: chapters_loop.simps)
  qed
qed

lemma books_loop_effect:
  "in_txn T0 WS c \<Longrightarrow>
   post (\<lambda>n. in_txn T0 (books_effect nfkd translationId bs bookIndex WS)) (\<lambda>e c'. False)
     (books_loop nfkd translationId bs bookIndex totalVerses c)"
proof (induction bs arbitrary: WS c bookIndex totalVerses)
  case Nil
  then show ?case by (simp add: post_def)
next
  case (Cons b bs)
  obtain W S where WS: "WS = (W, S)" by (cases WS)
  let ?s = "INSERT_book [PNum translationId, PStr (book_name b), PNum (int bookIndex + 1)]"
  let ?WS1 = "add_book translationId (book_name b) (int bookIndex + 1) (W, S)"
  have e1: "exec ?s W S = Some (fst ?WS1, snd ?WS1, [book_id_seq S])"
    by (simp add: add_book_def)
  from query_in_txn[OF Cons.prems[unfolded WS] e1]
  obtain c1 where q1: "query ?s c = (Inr [book_id_seq S], c1)" and t1: "in_txn T0 ?WS1 c1"
    by auto
  note l = chapters_loop_effect[OF t1, of nfkd "book_id_seq S" "book_chapters b" totalVerses]
  show ?case
  proof (cases "chapters_loop nfkd (book_id_seq S) (book_chapters b) totalVerses c1")
    case (Pair r c2)
    show ?thesis
    proof (cases r)
      case (Inl e)
      with Pair l show ?thesis by (simp add: post_def)
    next
      case (Inr n)
      with Pair l have "in_txn T0 (chapters_effect nfkd (book_id_seq S) (book_chapters b) ?WS1) c2"
        by (simp add: post_def)
      from Cons.IH[OF this] q1 Pair Inr show ?thesis by (simp add: WS)
    qed
  qed
qed

lemma exec_INSERT_translation:
  "exec (INSERT_translation [PStr code, PStr n, PStr l, PStr lic]) T S =
     Some (fst (fst (upserted code n l lic (T, S))), snd (fst (upserted code n l lic (T, S))),
           [snd (upserted code n l lic (T, S))])"
  by (simp add: upserted_def split: option.splits)

lemma direct_try_ok:
  "post (\<lambda>n c. connected c \<and> faults c = {} \<and> working c = None \<and>
                committed c = fst (direct_effect nfkd s language translation (T, S)) \<and>
                seqs c = snd (direct_effect nfkd s language translation (T, S)))
        (\<lambda>e c. False)
        (direct_try nfkd (Some s) language translation (new_Client T S {}))"
proof (rule direct_try_post_loop[where
         ?J0.0 = "\<lambda>c. connected c \<and> faults c = {} \<and> committed c = T \<and> working c = None \<and> seqs c = S"
     and ?J1.0 = "in_txn T (T, S)"
     and ?J2.0 = "\<lambda>i c. i = snd (upserted translation (translationName s) language (licenseInfo s) (T, S)) \<and>
                       in_txn T (fst (upserted translation (translationName s) language (licenseInfo s) (T, S))) c"
     and ?J3.0 = "in_txn T (direct_effect nfkd s language translation (T, S))"])
  show "post (\<lambda>u c. connected c \<and> faults c = {} \<and> committed c = T \<and> working c = None \<and> seqs c = S)
          (\<lambda>e c. False) (connect (new_Client T S {}))"
    by (simp add: post_def connect_def new_Client_def Let_def)
next
  fix c :: client
  assume "connected c \<and> faults c = {} \<and> committed c = T \<and> working c = None \<and> seqs c = S"
  then show "post (\<lambda>r. in_txn T (T, S)) (\<lambda>e c. False) (query BEGIN c)"
    by (simp add: post_def query_def Let_def in_txn_def)
next
  fix t c assume "in_txn T (T, S) c"
  from query_in_txn[OF this, of "CREATE_TABLE_IF_NOT_EXISTS t" T S "[]"]
  show "post (\<lambda>r. in_txn T (T, S)) (\<lambda>e c. False) (query (CREATE_TABLE_IF_NOT_EXISTS t) c)"
    by (auto simp: post_def)
next
  fix s' c assume s: "Some s = Some s'" and t: "in_txn T (T, S) c"
  from query_in_txn[OF t exec_INSERT_translation[of translation "translationName s" language "licenseInfo s"]]
  show "post (\<lambda>r c'. if r = [] then False
                      else hd r = snd (upserted translation (translationName s) language (licenseInfo s) (T, S)) \<and>
                           in_txn T (fst (upserted translation (translationName s) language (licenseInfo s) (T, S))) c')
          (\<lambda>e c. False)
          (query (INSERT_translation
                     [PStr translation, PStr (translationName s'), PStr language,
                      PStr (licenseInfo s')]) c)"
    using s by (auto simp: post_def)
next
  fix s' i c assume s: "Some s = Some s'"
    and "i = snd (upserted translation (translationName s) language (licenseInfo s) (T, S)) \<and>
         in_txn T (fst (upserted translation (translationName s) language (licenseInfo s) (T, S))) c"
  then show "post (\<lambda>r. in_txn T (direct_effect nfkd s language translation (T, S))) (\<lambda>e c. False)
               (books_loop nfkd i (data_books s') 0 0 c)"
    using books_loop_effect[of T "fst (upserted translation (translationName s) language (licenseInfo s) (T, S))"
            c nfkd i "data_books s" 0 0]
    by (simp add: direct_effect_def Let_def)
next
  fix c assume "in_txn T (direct_effect nfkd s language translation (T, S)) c"
  then show "post (\<lambda>r c. connected c \<and> faults c = {} \<and> working c = None \<and>
                committed c = fst (direct_effect nfkd s language translation (T, S)) \<and>
                seqs c = snd (direct_effect nfkd s language translation (T, S)))
        (\<lambda>e c. False) (query COMMIT c)"
    by (simp add: post_def query_def Let_def in_txn_def)
qed simp_all

lemma generatePostgreSQLDirect_ok:
  "fst (generatePostgreSQLDirect nfkd (Some s) language translation T S {}) = Inr ()"
  "committed (snd (generatePostgreSQLDirect nfkd (Some s) language translation T S {})) =
     fst (direct_effect nfkd s language translation (T, S))"
  "seqs (snd (generatePostgreSQLDirect nfkd (Some s) language translation T S {})) =
     snd (direct_effect nfkd s language translation (T, S))"
  "verse_flush_sizes (snd (generatePostgreSQLDirect nfkd (Some s) language translation T S {})) =
     map length (verse_batches (data_books s))"
proof -
  obtain r c where rc: "direct_try nfkd (Some s) language translation (new_Client T S {}) = (r, c)"
    by (cases "direct_try nfkd (Some s) language translation (new_Client T S {})")
  from direct_try_ok[of nfkd s language translation T S] rc
  obtain n where n: "r = Inr n" "committed c = fst (direct_effect nfkd s language translation (T, S))"
    "seqs c = snd (direct_effect nfkd s language translation (T, S))"
    by (cases r) (auto simp: post_def)
  from direct_try_sizes[where src = "Some s" and nfkd = nfkd and language = language
         and translation = translation and T = T and S = S and F = "{}"] rc n(1)
  have sz: "verse_flush_sizes c = map length (verse_batches (data_books s))"
    by (simp add: post_def)
  have g: "generatePostgreSQLDirect nfkd (Some s) language translation T S {} =
             (Inr (), snd (end_client c))"
    using rc n(1) by (simp add: generatePostgreSQLDirect_def)
  show "fst (generatePostgreSQLDirect nfkd (Some s) language translation T S {}) = Inr ()"
    "committed (snd (generatePostgreSQLDirect nfkd (Some s) language translation T S {})) =
       fst (direct_effect nfkd s language translation (T, S))"
    "seqs (snd (generatePostgreSQLDirect nfkd (Some s) language translation T S {})) =
       snd (direct_effect nfkd s language translation (T, S))"
    "verse_flush_sizes (snd (generatePostgreSQLDirect nfkd (Some s) language translation T S {})) =
       map length (verse_batches (data_books s))"
    unfolding g using n(2,3) sz
    by (simp_all add: committed_end_client end_client_def Let_def verse_flush_sizes_def
                      verse_flushes_def)
qed

lemma exec_loop_stmt_translation:
  assumes "loop_stmt s" "exec s W S = Some (W', S', ids)"
  shows "translation_tbl W' = translation_tbl W"
  using assms
  by (cases rule: exec.cases[of "(s, W, S)"])
     (auto simp: loop_stmt_def verse_batch_stmt_def split: option.splits if_splits)

lemma holds_translation_query:
  assumes "holds_translation X c" "loop_stmt s"
  shows "holds_translation X (snd (query s c))"
proof -
  obtain W where W: "working c = Some W" "translation_tbl W = X"
    using assms(1) unfolding holds_translation_def by blast
  have nt: "s \<noteq> BEGIN" "s \<noteq> COMMIT" "s \<noteq> ROLLBACK"
    using assms(2) by (auto simp: loop_stmt_def verse_batch_stmt_def)
  show ?thesis
  proof (cases "exec s W (seqs c)")
    case None
    with W nt show ?thesis
      by (cases s) (auto simp: holds_translation_def query_def Let_def)
  next
    case (Some r)
    obtain W' S' ids where r: "r = (W', S', ids)" by (cases r)
    from exec_loop_stmt_translation[OF assms(2) Some[unfolded r]] W(2)
    have "translation_tbl W' = X" by simp
    with W Some r nt show ?thesis
      by (cases s) (auto simp: holds_translation_def query_def Let_def)
  qed
qed

lemma direct_try_translation:
  "post (\<lambda>n c. translation_tbl (committed c) =
                translation_tbl (fst (fst (upserted translation (translationName s) language
                                             (licenseInfo s) (T, S)))))
        (\<lambda>e c. True)
        (direct_try nfkd (Some s) language translation (new_Client T S F))"
proof -
  define X where "X = translation_tbl (fst (fst (upserted translation (translationName s) language
                                             (licenseInfo s) (T, S))))"
  have "post (\<lambda>n c. translation_tbl (committed c) = X) (\<lambda>e c. True)
        (direct_try nfkd (Some s) language translation (new_Client T S F))"
  proof (rule direct_try_post_loop[where
         ?J0.0 = "\<lambda>c. committed c = T \<and> working c = None \<and> seqs c = S"
     and ?J1.0 = "\<lambda>c. working c = Some T \<and> seqs c = S"
     and ?J2.0 = "\<lambda>i. holds_translation X"
     and ?J3.0 = "holds_translation X"])
    show "post (\<lambda>u c. committed c = T \<and> working c = None \<and> seqs c = S) (\<lambda>e c. True)
            (connect (new_Client T S F))"
      by (simp add: post_def connect_def new_Client_def Let_def)
  next
    fix c :: client assume "committed c = T \<and> working c = None \<and> seqs c = S"
    then show "post (\<lambda>r c. working c = Some T \<and> seqs c = S) (\<lambda>e c. True) (query BEGIN c)"
      by (simp add: post_def query_def Let_def)
  next
    fix t and c :: client assume "working c = Some T \<and> seqs c = S"
    then show "post (\<lambda>r c. working c = Some T \<and> seqs c = S) (\<lambda>e c. True)
                 (query (CREATE_TABLE_IF_NOT_EXISTS t) c)"
      by (simp add: post_def query_def Let_def)
  next
    fix s' and c :: client assume s: "Some s = Some s'" and c: "working c = Some T \<and> seqs c = S"
    show "post (\<lambda>r c'. if r = [] then True else holds_translation X c') (\<lambda>e c. True)
            (query (INSERT_translation
                     [PStr translation, PStr (translationName s'), PStr language,
                      PStr (licenseInfo s')]) c)"
      using s c exec_INSERT_translation[of translation "translationName s" language "licenseInfo s" T S]
      by (simp add: post_def query_def Let_def holds_translation_def X_def)
  next
    fix s' i c assume "holds_translation X c"
    then show "post (\<lambda>r. holds_translation X) (\<lambda>e c. True) (books_loop nfkd i (data_books s') 0 0 c)"
      by (rule books_loop_post[where J = "holds_translation X", rotated 2])
         (auto simp: post_def split: prod.splits sum.splits
               dest: holds_translation_query[where X = X])
  next
    fix c assume "holds_translation X c"
    then show "post (\<lambda>r c. translation_tbl (committed c) = X) (\<lambda>e c. True) (query COMMIT c)"
      by (auto simp: post_def query_def Let_def holds_translation_def)
  qed simp_all
  then show ?thesis unfolding X_def .
qed

lemma generatePostgreSQLDirect_translation:
  assumes "generatePostgreSQLDirect nfkd src language translation T S F = (Inr u, c)"
  shows "\<exists>s. src = Some s \<and>
           translation_tbl (committed c) =
             translation_tbl (fst (fst (upserted translation (translationName s) language
                                          (licenseInfo s) (T, S))))"
proof (cases src)
  case None
  have "fst (direct_try nfkd None language translation (new_Client T S F)) \<noteq> Inr n" for n
    by (auto simp: direct_try_def await_def split: prod.splits sum.splits)
  with assms None show ?thesis
    by (auto simp: generatePostgreSQLDirect_def split: prod.splits sum.splits)
next
  case (Some s)
  from direct_try_translation[of translation s language T S nfkd F] assms Some
  show ?thesis
    by (auto simp: generatePostgreSQLDirect_def post_def committed_end_client
             split: prod.splits sum.splits)
qed

lemma upsert_translation_None:
  "upsert_translation c n l lic rows = None \<longleftrightarrow> c \<notin> tr_code ` set rows"
  by (induction rows) (auto split: option.splits)

lemma upsert_translation_Some:
  "upsert_translation c n l lic rows = Some (rs, i) \<Longrightarrow>
     map tr_code rs = map tr_code rows \<and> length rs = length rows"
  by (induction rows arbitrary: rs) (auto split: option.splits if_splits)

lemma filter_code_absent:
  "c \<notin> tr_code ` set rows \<Longrightarrow> filter (\<lambda>r. tr_code r = c) rows = []"
  by (induction rows) auto

lemma upsert_translation_filter:
  "distinct (map tr_code rows) \<Longrightarrow> upsert_translation c n l lic rows = Some (rs, i) \<Longrightarrow>
     \<exists>r0. filter (\<lambda>r. tr_code r = c) rows = [r0] \<and>
          filter (\<lambda>r. tr_code r = c) rs = [r0\<lparr>tr_name := n, tr_language := l, tr_license := lic\<rparr>]"
proof (induction rows arbitrary: rs)
  case Nil
  then show ?case by simp
next
  case (Cons r rows)
  show ?case
  proof (cases "tr_code r = c")
    case True
    with Cons.prems have "c \<notin> tr_code ` set rows" by auto
    with True Cons.prems show ?thesis by (auto simp: filter_code_absent)
  next
    case False
    with Cons.prems obtain rs' where "upsert_translation c n l lic rows = Some (rs', i)"
      "rs = r # rs'" by (auto split: option.splits)
    with Cons.IH[of rs'] Cons.prems(1) False show ?thesis by auto
  qed
qed

lemma upserted_rows:
  fixes T :: tables and S :: seqs and c n l lic :: jsstring
  assumes d: "distinct (map tr_code (translation_tbl T))"
    and X: "X = translation_tbl (fst (fst (upserted c n l lic (T, S))))"
  shows "distinct (map tr_code X)"
    and "\<exists>r. filter (\<lambda>r. tr_code r = c) X = [r] \<and> tr_name r = n \<and> tr_language r = l \<and>
             tr_license r = lic"
    and "c \<in> tr_code ` set (translation_tbl T) \<Longrightarrow>
           length X = length (translation_tbl T) \<and>
           (\<exists>r0. filter (\<lambda>r. tr_code r = c) (translation_tbl T) = [r0] \<and>
                 filter (\<lambda>r. tr_code r = c) X =
                   [r0\<lparr>tr_name := n, tr_language := l, tr_license := lic\<rparr>])"
proof -
  show "distinct (map tr_code X)"
    using d upsert_translation_Some[of c n l lic "translation_tbl T"]
    by (auto simp: X upserted_def upsert_translation_None split: option.splits)
  show "\<exists>r. filter (\<lambda>r. tr_code r = c) X = [r] \<and> tr_name r = n \<and> tr_language r = l \<and>
             tr_license r = lic"
  proof (cases "upsert_translation c n l lic (translation_tbl T)")
    case None
    then have "c \<notin> tr_code ` set (translation_tbl T)" by (simp add: upsert_translation_None)
    with None show ?thesis by (simp add: X upserted_def filter_code_absent)
  next
    case (Some p)
    obtain rs i where p: "p = (rs, i)" by (cases p)
    from upsert_translation_filter[OF d Some[unfolded p]] Some p
    show ?thesis by (auto simp: X upserted_def)
  qed
  assume "c \<in> tr_code ` set (translation_tbl T)"
  then obtain rs i where s: "upsert_translation c n l lic (translation_tbl T) = Some (rs, i)"
    using upsert_translation_None[of c n l lic "translation_tbl T"]
    by (cases "upsert_translation c n l lic (translation_tbl T)") auto
  from upsert_translation_filter[OF d s] upsert_translation_Some[OF s] s
  show "length X = length (translation_tbl T) \<and>
           (\<exists>r0. filter (\<lambda>r. tr_code r = c) (translation_tbl T) = [r0] \<and>
                 filter (\<lambda>r. tr_code r = c) X =
                   [r0\<lparr>tr_name := n, tr_language := l, tr_license := lic\<rparr>])"
    by (auto simp: X upserted_def)
qed

section \<open>Verse flushes and the document upsert\<close>

text \<open>
  Claim C2, as the code has it.  The leaf writer of the direct-execution mode has no
  batch size: it flushes once per chapter, with all the verses of the chapter.  For a
  document of two books, each with one chapter of three verses, imported when no call
  fails, it issues two flushes of three rows each, and the \<open>verse\<close> table gains six
  rows whose numbers are those of the source, in order (exactly six rows when the table
  was empty).
\<close>

theorem two_books_of_three_verses:
  "(let doc = \<lparr>data_books =
                 [\<lparr>book_name = n1,
                   book_chapters = [\<lparr>chapter_chapter = k1, chapter_verses = Some [v1, v2, v3]\<rparr>]\<rparr>,
                  \<lparr>book_name = n2,
                   book_chapters = [\<lparr>chapter_chapter = k2, chapter_verses = Some [v4, v5, v6]\<rparr>]\<rparr>],
               translationName = tn, licenseInfo = li\<rparr>;
        run = generatePostgreSQLDirect nfkd (Some doc) language translation T S {}
    in fst run = Inr () \<and>
       verse_flush_sizes (snd run) = [3, 3] \<and>
       map vs_verse_number (verse_tbl (committed (snd run))) =
         map vs_verse_number (verse_tbl T) @ map verse_verse [v1, v2, v3, v4, v5, v6])"
  unfolding Let_def generatePostgreSQLDirect_ok
  by (simp add: verse_batches_def chapter_batches_def direct_effect_def upserted_def
                chapter_batch_def add_book_def add_chapter_def add_verses_def Let_def
           split: option.splits prod.splits)

theorem two_books_of_three_verses_witness:
  "fst (example_import empty_tables fresh_seqs {}) = Inr () \<and>
   verse_flush_sizes (snd (example_import empty_tables fresh_seqs {})) = [3, 3] \<and>
   map vs_verse_number (verse_tbl (committed (snd (example_import empty_tables fresh_seqs {})))) =
     [1, 2, 3, 1, 2, 3]"
  using two_books_of_three_verses[where nfkd = "\<lambda>s. s" and language = "[0x65, 0x6E]"
          and translation = "[0x4B]" and T = empty_tables and S = fresh_seqs
          and ?n1.0 = "[0x47, 0x65, 0x6E]" and ?n2.0 = "[0x45, 0x78, 0x6F]"
          and ?k1.0 = 1 and ?k2.0 = 1
          and ?v1.0 = "\<lparr>verse_verse = 1, verse_text = JString [0x49, 0x6E]\<rparr>"
          and ?v2.0 = "\<lparr>verse_verse = 2, verse_text = JString [0xC6]\<rparr>"
          and ?v3.0 = "\<lparr>verse_verse = 3, verse_text = JNull\<rparr>"
          and ?v4.0 = "\<lparr>verse_verse = 1, verse_text = JString [0x49, 0x6E]\<rparr>"
          and ?v5.0 = "\<lparr>verse_verse = 2, verse_text = JString [0xC6]\<rparr>"
          and ?v6.0 = "\<lparr>verse_verse = 3, verse_text = JNull\<rparr>"
          and tn = "[0x4B, 0x4A, 0x56]" and li = "[0x50, 0x44]"]
  by (simp add: example_import_def example_source_def example_verses_def empty_tables_def Let_def)

text \<open>
  Claim C2 as the specification words it fails: on the example document the flushes
  are two of size three, not three of size two.
\<close>

theorem flushes_are_per_chapter:
  "verse_flush_sizes (snd (example_import empty_tables fresh_seqs {})) = [3, 3] \<and>
   verse_flush_sizes (snd (example_import empty_tables fresh_seqs {})) \<noteq> [2, 2, 2] \<and>
   length (verse_flushes (calls (snd (example_import empty_tables fresh_seqs {})))) = 2"
  by code_simp

text \<open>
  Claim C6.  Two successful imports under the same code, the second into what the first
  left: after the first there is exactly one \<open>translation\<close> row with the code; after the
  second there is exactly one, the same row with the name, language and licence of the
  second import, its identifier and code unchanged; and the table has not grown.  The
  codes of the table are distinct to begin with, as its \<open>UNIQUE\<close> constraint has it.
\<close>

theorem reimport_updates_document:
  assumes "distinct (map tr_code (translation_tbl T))"
    and "generatePostgreSQLDirect nfkd1 src1 language1 code T S F1 = (Inr u1, c1)"
    and "generatePostgreSQLDirect nfkd2 src2 language2 code (committed c1) (seqs c1) F2 = (Inr u2, c2)"
  shows "\<exists>r1 s2. src2 = Some s2 \<and>
           filter (\<lambda>r. tr_code r = code) (translation_tbl (committed c1)) = [r1] \<and>
           filter (\<lambda>r. tr_code r = code) (translation_tbl (committed c2)) =
             [r1\<lparr>tr_name := translationName s2, tr_language := language2,
                 tr_license := licenseInfo s2\<rparr>] \<and>
           length (translation_tbl (committed c2)) = length (translation_tbl (committed c1))"
proof -
  from generatePostgreSQLDirect_translation[OF assms(2)]
  obtain s1 where s1: "src1 = Some s1"
    "translation_tbl (committed c1) =
       translation_tbl (fst (fst (upserted code (translationName s1) language1 (licenseInfo s1) (T, S))))"
    by blast
  from generatePostgreSQLDirect_translation[OF assms(3)]
  obtain s2 where s2: "src2 = Some s2"
    "translation_tbl (committed c2) =
       translation_tbl (fst (fst (upserted code (translationName s2) language2 (licenseInfo s2)
                                    (committed c1, seqs c1))))"
    by blast
  note u1 = upserted_rows(1,2)[OF assms(1) s1(2)]
  from u1(2) obtain r1 where r1: "filter (\<lambda>r. tr_code r = code) (translation_tbl (committed c1)) = [r1]"
    by blast
  then have "r1 \<in> set (filter (\<lambda>r. tr_code r = code) (translation_tbl (committed c1)))" by simp
  then have mem: "code \<in> tr_code ` set (translation_tbl (committed c1))" by auto
  from upserted_rows(3)[OF u1(1) s2(2) mem] r1 s2(1)
  show ?thesis by auto
qed

theorem reimport_updates_document_witness:
  "distinct (map tr_code (translation_tbl empty_tables)) \<and>
   fst first_import = Inr () \<and> fst second_import = Inr () \<and>
   translation_tbl (committed (snd first_import)) =
     [\<lparr>tr_id = 1, tr_code = [0x4B], tr_name = [0x4B, 0x4A, 0x56], tr_language = [0x65, 0x6E],
       tr_license = [0x50, 0x44]\<rparr>] \<and>
   translation_tbl (committed (snd second_import)) =
     [\<lparr>tr_id = 1, tr_code = [0x4B], tr_name = [0x4E, 0x65, 0x77], tr_language = [0x66, 0x72],
       tr_license = [0x43, 0x43]\<rparr>]"
proof -
  have d: "distinct (map tr_code (translation_tbl empty_tables))"
    by (simp add: empty_tables_def)
  have f1: "fst first_import = Inr ()" and f2: "fst second_import = Inr ()"
    by (simp_all add: first_import_def second_import_def example_import_def
                      generatePostgreSQLDirect_ok)
  have t1: "translation_tbl (committed (snd first_import)) =
     [\<lparr>tr_id = 1, tr_code = [0x4B], tr_name = [0x4B, 0x4A, 0x56], tr_language = [0x65, 0x6E],
       tr_license = [0x50, 0x44]\<rparr>]"
    by code_simp
  have l2: "length (translation_tbl (committed (snd second_import))) = 1"
    by code_simp
  have r1: "example_import empty_tables fresh_seqs {} = (Inr (), snd first_import)"
    using f1 by (simp add: first_import_def prod_eq_iff)
  have r2: "generatePostgreSQLDirect (\<lambda>s. s) (Some revised_source) [0x66, 0x72] [0x4B]
       (committed (snd first_import)) (seqs (snd first_import)) {} = (Inr (), snd second_import)"
    using f2 by (simp add: second_import_def prod_eq_iff)
  from reimport_updates_document[OF d r1[unfolded example_import_def] r2]
  obtain r where
    "filter (\<lambda>r. tr_code r = [0x4B]) (translation_tbl (committed (snd first_import))) = [r]"
    "filter (\<lambda>r. tr_code r = [0x4B]) (translation_tbl (committed (snd second_import))) =
       [r\<lparr>tr_name := translationName revised_source, tr_language := [0x66, 0x72],
          tr_license := licenseInfo revised_source\<rparr>]"
    by auto
  then have "filter (\<lambda>r. tr_code r = [0x4B]) (translation_tbl (committed (snd second_import))) =
     [\<lparr>tr_id = 1, tr_code = [0x4B], tr_name = [0x4E, 0x65, 0x77], tr_language = [0x66, 0x72],
       tr_license = [0x43, 0x43]\<rparr>]"
    unfolding t1 by (auto simp: revised_source_def)
  moreover have "filter (\<lambda>r. tr_code r = [0x4B]) (translation_tbl (committed (snd second_import))) =
                 translation_tbl (committed (snd second_import))"
    by code_simp
  ultimately show ?thesis using d f1 f2 t1 by simp
qed

section \<open>The text normalizer\<close>

lemma normalizeText_direct_total: "\<exists>s. normalizeText_direct nfkd t = Inr s"
  by (simp add: normalizeText_direct_eq)

lemma normalizeText_script_string:
  "normalizeText_script nfkd (JString s) = Inr (nfkd (replace_AE s))"
  by (simp add: normalizeText_script_def)

text \<open>
  Claim C8 at \<open>null\<close> and \<open>undefined\<close>: the normalizer of the direct-execution script
  returns the empty string, the normalizer of the script-emission script throws.
\<close>

theorem normalizeText_script_throws:
  "normalizeText_script nfkd JNull = Inl TypeError \<and>
   normalizeText_script nfkd JUndefined = Inl TypeError \<and>
   normalizeText_direct nfkd JNull = Inr [] \<and>
   normalizeText_direct nfkd JUndefined = Inr []"
  by (simp add: normalizeText_script_def normalizeText_direct_def)

section \<open>Script emission against direct execution\<close>



lemma fold_psql_step_append:
  "fold psql_step (xs @ ys) TS = fold psql_step ys (fold psql_step xs TS)"
  by simp

text \<open>The look-ups of the script do not depend on the other tables.\<close>

lemma select_translation_id_frame:
  "translation_tbl T' = translation_tbl T \<Longrightarrow> select_translation_id c T' = select_translation_id c T"
  by (simp add: select_translation_id_def)

lemma select_chapter_id_frame:
  "book_tbl T' = book_tbl T \<Longrightarrow> chapter_tbl T' = chapter_tbl T \<Longrightarrow>
     select_chapter_id n k t T' = select_chapter_id n k t T"
  by (simp add: select_chapter_id_def)














end
